theory Spec2Isabelle
  imports Main "HOL-Library.Word"
begin

unbundle bit_operations_syntax

section \<open>The pool allocator of src/core/ngx\_palloc.c\<close>

text \<open>
  The model is for an LP64 platform: pointers, \<^verbatim>\<open>size_t\<close> and \<^verbatim>\<open>ngx_uint_t\<close> are 64-bit
  words whose arithmetic wraps around. The null pointer is the word 0.
\<close>

type_synonym addr = "64 word"

type_synonym size_t = "64 word"

type_synonym ngx_uint_t = "64 word"

type_synonym ngx_fd_t = int

subsection \<open>Platform constants\<close>

text \<open>
  The structure sizes and alignment constants come from headers (ngx\_palloc.h,
  ngx\_config.h) that accompany the source file; they are parameters of the model.
\<close>

record layout =
  sz_pool :: size_t                  \<comment> \<open>\<^verbatim>\<open>sizeof(ngx_pool_t)\<close>\<close>
  sz_data :: size_t                  \<comment> \<open>\<^verbatim>\<open>sizeof(ngx_pool_data_t)\<close>\<close>
  sz_large :: size_t                 \<comment> \<open>\<^verbatim>\<open>sizeof(ngx_pool_large_t)\<close>\<close>
  sz_cleanup :: size_t               \<comment> \<open>\<^verbatim>\<open>sizeof(ngx_pool_cleanup_t)\<close>\<close>
  NGX_ALIGNMENT :: size_t
  NGX_POOL_ALIGNMENT :: size_t
  NGX_MAX_ALLOC_FROM_POOL :: size_t

text \<open>The values on x86-64 Linux with 4096-byte pages.\<close>

definition lp64 :: layout where
  "lp64 = \<lparr>sz_pool = 80, sz_data = 32, sz_large = 16, sz_cleanup = 24,
     NGX_ALIGNMENT = 8, NGX_POOL_ALIGNMENT = 16, NGX_MAX_ALLOC_FROM_POOL = 4095\<rparr>"

text \<open>
  Modelled from the spec: the macro \<^verbatim>\<open>ngx_align_ptr\<close> is not in the source file. The
  spec says that the candidate address is rounded up to the platform alignment
  boundary; the result is again a 64-bit pointer.
\<close>

definition ngx_align_ptr :: "addr \<Rightarrow> size_t \<Rightarrow> addr" where
  "ngx_align_ptr p a = word_of_nat (((unat p + (unat a - 1)) div unat a) * unat a)"

subsection \<open>The outside world: underlying allocator, callbacks, memory contents\<close>

text \<open>Cleanup callbacks are function pointers; two of them are defined in the file.\<close>

datatype ngx_pool_cleanup_pt =
  ngx_pool_cleanup_file | ngx_pool_delete_file | user_handler addr

datatype event =
  Ev_alloc size_t addr               \<comment> \<open>\<^verbatim>\<open>ngx_alloc(size)\<close> and its result\<close>
| Ev_memalign size_t size_t addr     \<comment> \<open>\<^verbatim>\<open>ngx_memalign(alignment, size)\<close> and its result\<close>
| Ev_free addr                       \<comment> \<open>\<^verbatim>\<open>ngx_free(p)\<close>\<close>
| Ev_call ngx_pool_cleanup_pt addr   \<comment> \<open>a cleanup callback invoked on its data\<close>

text \<open>
  \<open>script\<close> holds the answers the underlying allocator will give to the next
  requests, in order (0 is a failed request; an exhausted script fails). \<open>trace\<close>
  records every call that leaves the pool code. \<open>fd_at\<close> reads the \<^verbatim>\<open>fd\<close> field of a
  \<^verbatim>\<open>ngx_pool_cleanup_file_t\<close> stored at an address.
\<close>

record world =
  script :: "addr list"
  trace :: "event list"
  fd_at :: "addr \<Rightarrow> ngx_fd_t"

text \<open>
  Modelled from the spec: \<^verbatim>\<open>ngx_alloc\<close>, \<^verbatim>\<open>ngx_memalign\<close> and \<^verbatim>\<open>ngx_free\<close> are the
  underlying allocator, an external collaborator with the contract
  \<^verbatim>\<open>allocate(size)\<close>, \<^verbatim>\<open>allocateAligned(size, alignment)\<close>, each a pointer or a
  failure, and \<^verbatim>\<open>release(ptr)\<close>.
\<close>

definition ngx_alloc :: "size_t \<Rightarrow> world \<Rightarrow> addr \<times> world" where
  "ngx_alloc sz w =
     (case script w of
        [] \<Rightarrow> (0, w\<lparr>trace := trace w @ [Ev_alloc sz 0]\<rparr>)
      | a # as \<Rightarrow> (a, w\<lparr>script := as, trace := trace w @ [Ev_alloc sz a]\<rparr>))"

definition ngx_memalign :: "size_t \<Rightarrow> size_t \<Rightarrow> world \<Rightarrow> addr \<times> world" where
  "ngx_memalign alignment sz w =
     (case script w of
        [] \<Rightarrow> (0, w\<lparr>trace := trace w @ [Ev_memalign alignment sz 0]\<rparr>)
      | a # as \<Rightarrow> (a, w\<lparr>script := as, trace := trace w @ [Ev_memalign alignment sz a]\<rparr>))"

definition ngx_free :: "addr \<Rightarrow> world \<Rightarrow> world" where
  "ngx_free p w = w\<lparr>trace := trace w @ [Ev_free p]\<rparr>"

text \<open>\<^verbatim>\<open>c->handler(c->data)\<close>: the callback runs outside the pool code.\<close>

definition call_handler :: "ngx_pool_cleanup_pt \<Rightarrow> addr \<Rightarrow> world \<Rightarrow> world" where
  "call_handler h d w = w\<lparr>trace := trace w @ [Ev_call h d]\<rparr>"

subsection \<open>Data model\<close>

text \<open>
  A block header \<^verbatim>\<open>ngx_pool_data_t\<close>, together with the address of the block it heads.
  The \<^verbatim>\<open>next\<close> links are the order of the list \<open>blocks\<close> below.
\<close>

record ngx_pool_data_t =
  b_addr :: addr
  d_last :: addr
  d_end :: addr
  d_failed :: ngx_uint_t

record ngx_pool_large_t =
  l_addr :: addr
  alloc :: addr

record ngx_pool_cleanup_t =
  c_addr :: addr
  handler :: "ngx_pool_cleanup_pt option"
  data :: addr

text \<open>
  The pool: the chain of blocks (the head of the list is the root block, which is the
  pool itself), and the fields of the root. \<open>current\<close> is the position in the chain of
  the block \<^verbatim>\<open>pool->current\<close> points to. The large list and the cleanup list are in
  link order.
\<close>

record ngx_pool_t =
  blocks :: "ngx_pool_data_t list"
  pool_max :: size_t
  current :: nat
  p_chain :: addr
  large :: "ngx_pool_large_t list"
  cleanup :: "ngx_pool_cleanup_t list"

datatype ngx_int_t = NGX_OK | NGX_DECLINED

subsection \<open>ngx\_create\_pool\<close>

definition ngx_create_pool :: "layout \<Rightarrow> size_t \<Rightarrow> world \<Rightarrow> ngx_pool_t option \<times> world" where
  "ngx_create_pool L sz w =
     (let (p, w1) = ngx_memalign (NGX_POOL_ALIGNMENT L) sz w in
      if p = 0 then (None, w1)
      else
        let sz' = sz - sz_pool L in
        (Some \<lparr>blocks = [\<lparr>b_addr = p, d_last = p + sz_pool L, d_end = p + sz, d_failed = 0\<rparr>],
               pool_max = (if sz' < NGX_MAX_ALLOC_FROM_POOL L then sz'
                           else NGX_MAX_ALLOC_FROM_POOL L),
               current = 0, p_chain = 0, large = [], cleanup = []\<rparr>, w1))"

subsection \<open>ngx\_destroy\_pool and ngx\_reset\_pool\<close>

fun run_cleanups :: "ngx_pool_cleanup_t list \<Rightarrow> world \<Rightarrow> world" where
  "run_cleanups [] w = w"
| "run_cleanups (c # cs) w =
     run_cleanups cs (case handler c of Some h \<Rightarrow> call_handler h (data c) w | None \<Rightarrow> w)"

fun free_larges :: "ngx_pool_large_t list \<Rightarrow> world \<Rightarrow> world" where
  "free_larges [] w = w"
| "free_larges (l # ls) w =
     free_larges ls (if alloc l \<noteq> 0 then ngx_free (alloc l) w else w)"

text \<open>
  \<^verbatim>\<open>for (p = pool, n = pool->d.next; ; p = n, n = n->d.next) { ngx_free(p); if (n == NULL) break; }\<close>
\<close>

fun free_blocks :: "ngx_pool_data_t list \<Rightarrow> world \<Rightarrow> world" where
  "free_blocks [] w = w"
| "free_blocks [p] w = ngx_free (b_addr p) w"
| "free_blocks (p # n # ps) w = free_blocks (n # ps) (ngx_free (b_addr p) w)"

definition ngx_destroy_pool :: "ngx_pool_t \<Rightarrow> world \<Rightarrow> world" where
  "ngx_destroy_pool pool w =
     free_blocks (blocks pool) (free_larges (large pool) (run_cleanups (cleanup pool) w))"

fun reset_blocks :: "layout \<Rightarrow> ngx_pool_data_t list \<Rightarrow> ngx_pool_data_t list" where
  "reset_blocks L [] = []"
| "reset_blocks L (p # ps) =
     p\<lparr>d_last := b_addr p + sz_pool L, d_failed := 0\<rparr> # reset_blocks L ps"

definition ngx_reset_pool :: "layout \<Rightarrow> ngx_pool_t \<Rightarrow> world \<Rightarrow> ngx_pool_t \<times> world" where
  "ngx_reset_pool L pool w =
     (pool\<lparr>blocks := reset_blocks L (blocks pool), current := 0, p_chain := 0, large := []\<rparr>,
      free_larges (large pool) w)"

subsection \<open>Small allocations and block growth\<close>

text \<open>
  The loop of \<^verbatim>\<open>ngx_palloc_block\<close> over the blocks from \<^verbatim>\<open>pool->current\<close>: \<open>i\<close> is the
  position of the head of the list in the chain, \<open>cur\<close> the value of \<^verbatim>\<open>pool->current\<close>.
  The loop stops at the block that has no successor, without touching it.
\<close>

fun failed_walk :: "ngx_pool_data_t list \<Rightarrow> nat \<Rightarrow> nat \<Rightarrow> ngx_pool_data_t list \<times> nat" where
  "failed_walk [] i cur = ([], cur)"
| "failed_walk [p] i cur = ([p], cur)"
| "failed_walk (p # n # ps) i cur =
     (let cur' = (if 4 < d_failed p then Suc i else cur);
          (ps', cur'') = failed_walk (n # ps) (Suc i) cur'
      in (p\<lparr>d_failed := d_failed p + 1\<rparr> # ps', cur''))"

definition ngx_palloc_block :: "layout \<Rightarrow> ngx_pool_t \<Rightarrow> size_t \<Rightarrow> world \<Rightarrow> addr \<times> ngx_pool_t \<times> world" where
  "ngx_palloc_block L pool sz w =
     (let psize = (case blocks pool of [] \<Rightarrow> 0 | r # _ \<Rightarrow> d_end r - b_addr r);
          (m, w1) = ngx_memalign (NGX_POOL_ALIGNMENT L) psize w
      in if m = 0 then (0, pool, w1)
         else
           let m' = ngx_align_ptr (m + sz_data L) (NGX_ALIGNMENT L);
               new = \<lparr>b_addr = m, d_last = m' + sz, d_end = m + psize, d_failed = 0\<rparr>;
               (ps, cur) = failed_walk (drop (current pool) (blocks pool)) (current pool) (current pool)
           in (m', pool\<lparr>blocks := take (current pool) (blocks pool) @ ps @ [new], current := cur\<rparr>, w1))"

text \<open>
  The loop of \<^verbatim>\<open>ngx_palloc_small\<close> over the blocks from \<^verbatim>\<open>pool->current\<close>. The test
  \<^verbatim>\<open>(size_t) (p->d.end - m) >= size\<close> is on unsigned 64-bit values.
\<close>

fun small_loop :: "layout \<Rightarrow> ngx_pool_data_t list \<Rightarrow> size_t \<Rightarrow> bool \<Rightarrow> (addr \<times> ngx_pool_data_t list) option" where
  "small_loop L [] sz align = None"
| "small_loop L (p # ps) sz align =
     (let m = (if align then ngx_align_ptr (d_last p) (NGX_ALIGNMENT L) else d_last p) in
      if sz \<le> d_end p - m then Some (m, p\<lparr>d_last := m + sz\<rparr> # ps)
      else (case small_loop L ps sz align of
              None \<Rightarrow> None
            | Some (m', ps') \<Rightarrow> Some (m', p # ps')))"

definition ngx_palloc_small :: "layout \<Rightarrow> ngx_pool_t \<Rightarrow> size_t \<Rightarrow> bool \<Rightarrow> world \<Rightarrow> addr \<times> ngx_pool_t \<times> world" where
  "ngx_palloc_small L pool sz align w =
     (case small_loop L (drop (current pool) (blocks pool)) sz align of
        Some (m, ps) \<Rightarrow> (m, pool\<lparr>blocks := take (current pool) (blocks pool) @ ps\<rparr>, w)
      | None \<Rightarrow> ngx_palloc_block L pool sz w)"

subsection \<open>Large allocations\<close>

text \<open>
  The scan of \<^verbatim>\<open>ngx_palloc_large\<close> for a node without payload; \<open>n\<close> is the counter of the
  loop, tested by \<^verbatim>\<open>n++ > 3\<close> before it is incremented.
\<close>

fun large_scan :: "addr \<Rightarrow> ngx_pool_large_t list \<Rightarrow> nat \<Rightarrow> ngx_pool_large_t list option" where
  "large_scan p [] n = None"
| "large_scan p (l # ls) n =
     (if alloc l = 0 then Some (l\<lparr>alloc := p\<rparr> # ls)
      else if n > 3 then None
      else (case large_scan p ls (Suc n) of
              None \<Rightarrow> None
            | Some ls' \<Rightarrow> Some (l # ls')))"

definition ngx_palloc_large :: "layout \<Rightarrow> ngx_pool_t \<Rightarrow> size_t \<Rightarrow> world \<Rightarrow> addr \<times> ngx_pool_t \<times> world" where
  "ngx_palloc_large L pool sz w =
     (let (p, w1) = ngx_alloc sz w in
      if p = 0 then (0, pool, w1)
      else
        (case large_scan p (large pool) 0 of
           Some ls \<Rightarrow> (p, pool\<lparr>large := ls\<rparr>, w1)
         | None \<Rightarrow>
             (let (lg, pool2, w2) = ngx_palloc_small L pool (sz_large L) True w1 in
              if lg = 0 then (0, pool2, ngx_free p w2)
              else (p, pool2\<lparr>large := \<lparr>l_addr = lg, alloc = p\<rparr> # large pool2\<rparr>, w2))))"

definition ngx_palloc :: "layout \<Rightarrow> ngx_pool_t \<Rightarrow> size_t \<Rightarrow> world \<Rightarrow> addr \<times> ngx_pool_t \<times> world" where
  "ngx_palloc L pool sz w =
     (if sz \<le> pool_max pool then ngx_palloc_small L pool sz True w
      else ngx_palloc_large L pool sz w)"

definition ngx_pnalloc :: "layout \<Rightarrow> ngx_pool_t \<Rightarrow> size_t \<Rightarrow> world \<Rightarrow> addr \<times> ngx_pool_t \<times> world" where
  "ngx_pnalloc L pool sz w =
     (if sz \<le> pool_max pool then ngx_palloc_small L pool sz False w
      else ngx_palloc_large L pool sz w)"

text \<open>
  \<^verbatim>\<open>ngx_pmemalign\<close> always adds a node to the large list. (\<^verbatim>\<open>ngx_pcalloc\<close> is \<^verbatim>\<open>ngx_palloc\<close>
  followed by the zeroing of the memory returned, whose contents the model does not hold.)
\<close>

definition ngx_pmemalign :: "layout \<Rightarrow> ngx_pool_t \<Rightarrow> size_t \<Rightarrow> size_t \<Rightarrow> world \<Rightarrow> addr \<times> ngx_pool_t \<times> world" where
  "ngx_pmemalign L pool sz alignment w =
     (let (p, w1) = ngx_memalign alignment sz w in
      if p = 0 then (0, pool, w1)
      else
        (let (lg, pool2, w2) = ngx_palloc_small L pool (sz_large L) True w1 in
         if lg = 0 then (0, pool2, ngx_free p w2)
         else (p, pool2\<lparr>large := \<lparr>l_addr = lg, alloc = p\<rparr> # large pool2\<rparr>, w2)))"

fun pfree_loop :: "addr \<Rightarrow> ngx_pool_large_t list \<Rightarrow> world \<Rightarrow> (ngx_pool_large_t list \<times> world) option" where
  "pfree_loop p [] w = None"
| "pfree_loop p (l # ls) w =
     (if p = alloc l then Some (l\<lparr>alloc := 0\<rparr> # ls, ngx_free (alloc l) w)
      else (case pfree_loop p ls w of
              None \<Rightarrow> None
            | Some (ls', w') \<Rightarrow> Some (l # ls', w')))"

definition ngx_pfree :: "ngx_pool_t \<Rightarrow> addr \<Rightarrow> world \<Rightarrow> ngx_int_t \<times> ngx_pool_t \<times> world" where
  "ngx_pfree pool p w =
     (case pfree_loop p (large pool) w of
        Some (ls, w') \<Rightarrow> (NGX_OK, pool\<lparr>large := ls\<rparr>, w')
      | None \<Rightarrow> (NGX_DECLINED, pool, w))"

subsection \<open>The cleanup chain\<close>

text \<open>
  Cleanup nodes lie in pool memory, and \<^verbatim>\<open>ngx_reset_pool\<close> rewinds the cursors of the
  blocks while leaving \<^verbatim>\<open>pool->cleanup\<close> as it is. The memory that
  \<^verbatim>\<open>ngx_pool_cleanup_add\<close> obtains for a node can therefore be the memory of a node that
  is still linked, and its stores through \<^verbatim>\<open>c\<close> then change the chain:

  \<^item> when \<^verbatim>\<open>c\<close> is the address of a linked node, \<^verbatim>\<open>c->data = ...\<close> overwrites the data of
    that node, and \<^verbatim>\<open>c->next = p->cleanup; p->cleanup = c\<close> closes the chain into a cycle
    through \<^verbatim>\<open>c\<close>, which is no list any more (\<open>Chain_cycle\<close>);

  \<^item> when the memory at \<^verbatim>\<open>c\<close> overlaps a linked node without coinciding with it, the
    stores land inside that node; the model stops there (\<open>Node_overlap\<close>).

  Only these stores of \<^verbatim>\<open>ngx_pool_cleanup_add\<close> are followed. What the callers write into
  memory that has been handed out, and what \<^verbatim>\<open>ngx_palloc_large\<close> and \<^verbatim>\<open>ngx_pmemalign\<close>
  write into a new large node, is not held against the cleanup chain.
\<close>

datatype chain_damage = Chain_cycle addr | Node_overlap addr

definition node_overlap :: "layout \<Rightarrow> addr \<Rightarrow> addr \<Rightarrow> bool" where
  "node_overlap L c a \<longleftrightarrow>
     c \<noteq> a \<and> unat c < unat a + unat (sz_cleanup L) \<and> unat a < unat c + unat (sz_cleanup L)"

text \<open>\<^verbatim>\<open>c->data = d\<close>, seen from the chain.\<close>

definition store_data :: "addr \<Rightarrow> addr \<Rightarrow> ngx_pool_cleanup_t list \<Rightarrow> ngx_pool_cleanup_t list" where
  "store_data c d cs = map (\<lambda>n. if c_addr n = c then n\<lparr>data := d\<rparr> else n) cs"

text \<open>\<^verbatim>\<open>c->handler = NULL; c->next = p->cleanup; p->cleanup = c; return c;\<close>\<close>

definition link_cleanup :: "addr \<Rightarrow> addr \<Rightarrow> ngx_pool_t \<Rightarrow> world
    \<Rightarrow> chain_damage + (addr \<times> ngx_pool_t \<times> world)" where
  "link_cleanup c d p w =
     (if c \<in> c_addr ` set (cleanup p) then Inl (Chain_cycle c)
      else Inr (c, p\<lparr>cleanup := \<lparr>c_addr = c, handler = None, data = d\<rparr> # cleanup p\<rparr>, w))"

definition ngx_pool_cleanup_add :: "layout \<Rightarrow> ngx_pool_t \<Rightarrow> size_t \<Rightarrow> world
    \<Rightarrow> chain_damage + (addr \<times> ngx_pool_t \<times> world)" where
  "ngx_pool_cleanup_add L p sz w =
     (let (c, p1, w1) = ngx_palloc L p (sz_cleanup L) w in
      if c = 0 then Inr (0, p1, w1)
      else if \<exists>n\<in>set (cleanup p1). node_overlap L c (c_addr n) then Inl (Node_overlap c)
      else if sz \<noteq> 0 then
        (let (d, p2, w2) = ngx_palloc L p1 sz w1;
             p3 = p2\<lparr>cleanup := store_data c d (cleanup p2)\<rparr>
         in if d = 0 then Inr (0, p3, w2)
            else link_cleanup c d p3 w2)
      else link_cleanup c 0 (p1\<lparr>cleanup := store_data c 0 (cleanup p1)\<rparr>) w1)"

text \<open>
  The loop of \<^verbatim>\<open>ngx_pool_run_cleanup_file\<close>. For a node with the close-file handler it
  reads \<^verbatim>\<open>cf->fd\<close> through \<^verbatim>\<open>cf = c->data\<close>; when \<^verbatim>\<open>c->data\<close> is null (a node registered
  with size 0) this is a read through the null pointer, and the run ends there.
\<close>

datatype fault = Null_dereference

fun cleanup_file_loop :: "ngx_fd_t \<Rightarrow> ngx_pool_cleanup_t list \<Rightarrow> world
    \<Rightarrow> fault + (ngx_pool_cleanup_t list \<times> world)" where
  "cleanup_file_loop fd [] w = Inr ([], w)"
| "cleanup_file_loop fd (c # cs) w =
     (if handler c = Some ngx_pool_cleanup_file \<and> data c = 0 then Inl Null_dereference
      else if handler c = Some ngx_pool_cleanup_file \<and> fd_at w (data c) = fd
      then Inr (c\<lparr>handler := None\<rparr> # cs, call_handler ngx_pool_cleanup_file (data c) w)
      else (case cleanup_file_loop fd cs w of
              Inl f \<Rightarrow> Inl f
            | Inr (cs', w') \<Rightarrow> Inr (c # cs', w')))"

definition ngx_pool_run_cleanup_file :: "ngx_pool_t \<Rightarrow> ngx_fd_t \<Rightarrow> world \<Rightarrow> fault + (ngx_pool_t \<times> world)" where
  "ngx_pool_run_cleanup_file p fd w =
     (case cleanup_file_loop fd (cleanup p) w of
        Inl f \<Rightarrow> Inl f
      | Inr (cs, w') \<Rightarrow> Inr (p\<lparr>cleanup := cs\<rparr>, w'))"

section \<open>Notions used to state the properties\<close>

text \<open>The events a call has added to the trace.\<close>

definition new_events :: "world \<Rightarrow> world \<Rightarrow> event list" where
  "new_events w w' = drop (length (trace w)) (trace w')"

text \<open>The position of the first element of a list that satisfies a predicate.\<close>

definition first_with :: "('a \<Rightarrow> bool) \<Rightarrow> 'a list \<Rightarrow> nat" where
  "first_with P xs = length (takeWhile (\<lambda>x. \<not> P x) xs)"

text \<open>
  What destroying a pool is expected to do: one callback for every cleanup node whose
  handler is not empty, in link order; one release for every large payload that is not
  null; one release for every block.
\<close>

definition cleanup_calls :: "ngx_pool_cleanup_t list \<Rightarrow> event list" where
  "cleanup_calls cs = map (\<lambda>c. Ev_call (the (handler c)) (data c)) (filter (\<lambda>c. handler c \<noteq> None) cs)"

definition large_frees :: "ngx_pool_large_t list \<Rightarrow> event list" where
  "large_frees ls = map Ev_free (filter (\<lambda>a. a \<noteq> 0) (map alloc ls))"

definition block_frees :: "ngx_pool_data_t list \<Rightarrow> event list" where
  "block_frees ps = map (\<lambda>p. Ev_free (b_addr p)) ps"

definition is_call :: "event \<Rightarrow> bool" where
  "is_call e = (case e of Ev_call _ _ \<Rightarrow> True | _ \<Rightarrow> False)"

text \<open>An event that is a failed request to the underlying allocator.\<close>

definition request_failed :: "event \<Rightarrow> bool" where
  "request_failed e = (case e of Ev_alloc _ a \<Rightarrow> a = 0 | Ev_memalign _ _ a \<Rightarrow> a = 0 | _ \<Rightarrow> False)"

text \<open>
  The test of \<^verbatim>\<open>ngx_pool_run_cleanup_file\<close> on a cleanup node; a node with the close-file
  handler and no data; a node at which the loop ends, one way or the other.
\<close>

definition file_match :: "world \<Rightarrow> ngx_fd_t \<Rightarrow> ngx_pool_cleanup_t \<Rightarrow> bool" where
  "file_match w fd c \<longleftrightarrow> handler c = Some ngx_pool_cleanup_file \<and> fd_at w (data c) = fd"

definition null_file :: "ngx_pool_cleanup_t \<Rightarrow> bool" where
  "null_file c \<longleftrightarrow> handler c = Some ngx_pool_cleanup_file \<and> data c = 0"

definition file_stop :: "world \<Rightarrow> ngx_fd_t \<Rightarrow> ngx_pool_cleanup_t \<Rightarrow> bool" where
  "file_stop w fd c \<longleftrightarrow> null_file c \<or> file_match w fd c"

text \<open>
  Modelled from the spec: the caller of \<^verbatim>\<open>ngx_pool_cleanup_add\<close> sets the handler of the
  node it gets back. \<open>set_handler\<close> is that store, \<^verbatim>\<open>c->handler = h\<close>, seen from the chain.
\<close>

definition set_handler :: "addr \<Rightarrow> ngx_pool_cleanup_pt \<Rightarrow> ngx_pool_t \<Rightarrow> ngx_pool_t" where
  "set_handler c h p =
     p\<lparr>cleanup := map (\<lambda>n. if c_addr n = c then n\<lparr>handler := Some h\<rparr> else n) (cleanup p)\<rparr>"

text \<open>The size of the root block, header included: \<^verbatim>\<open>pool->d.end - (u_char *) pool\<close>.\<close>

definition psize_of :: "ngx_pool_t \<Rightarrow> size_t" where
  "psize_of pool = (case blocks pool of [] \<Rightarrow> 0 | r # _ \<Rightarrow> d_end r - b_addr r)"

text \<open>
  The value of \<^verbatim>\<open>pool->current\<close> after the walk of \<^verbatim>\<open>ngx_palloc_block\<close>, told by
  positions: every block from \<open>cur\<close> up to the one before the last block is visited, and
  a visited block that had already failed more than 4 times moves \<open>current\<close> to its
  successor.
\<close>

definition walk_current :: "ngx_pool_data_t list \<Rightarrow> nat \<Rightarrow> nat" where
  "walk_current ps cur =
     foldl (\<lambda>c k. if 4 < d_failed (ps ! k) then Suc k else c) cur [cur ..< length ps - 1]"

subsection \<open>Sequences of small allocations\<close>

text \<open>
  A small allocation is a call of \<^verbatim>\<open>ngx_palloc\<close> or of \<^verbatim>\<open>ngx_pnalloc\<close>. \<open>run_small\<close>
  makes the calls of a list one after the other and collects, for every call that did
  not return null, the address returned, the size asked for, and whether the call was
  one of the aligned variant.
\<close>

datatype small_op = Palloc size_t | Pnalloc size_t

fun op_size :: "small_op \<Rightarrow> size_t" where
  "op_size (Palloc n) = n"
| "op_size (Pnalloc n) = n"

fun op_aligned :: "small_op \<Rightarrow> bool" where
  "op_aligned (Palloc n) = True"
| "op_aligned (Pnalloc n) = False"

fun do_small_op :: "layout \<Rightarrow> ngx_pool_t \<Rightarrow> small_op \<Rightarrow> world \<Rightarrow> addr \<times> ngx_pool_t \<times> world" where
  "do_small_op L pool (Palloc n) w = ngx_palloc L pool n w"
| "do_small_op L pool (Pnalloc n) w = ngx_pnalloc L pool n w"

fun run_small :: "layout \<Rightarrow> ngx_pool_t \<Rightarrow> world \<Rightarrow> small_op list
    \<Rightarrow> (addr \<times> size_t \<times> bool) list \<times> ngx_pool_t \<times> world" where
  "run_small L pool w [] = ([], pool, w)"
| "run_small L pool w (x # xs) =
     (let (m, pool1, w1) = do_small_op L pool x w;
          (rs, pool2, w2) = run_small L pool1 w1 xs
      in ((if m = 0 then rs else (m, op_size x, op_aligned x) # rs), pool2, w2))"

text \<open>
  The bytes \<open>[m, m + n)\<close> of a returned range, as natural numbers, and what it means for
  the ranges of a list to be pairwise disjoint.
\<close>

definition rng :: "addr \<Rightarrow> size_t \<Rightarrow> nat set" where
  "rng m n = {unat m ..< unat m + unat n}"

definition disjoint_ranges :: "(addr \<times> size_t \<times> bool) list \<Rightarrow> bool" where
  "disjoint_ranges rs =
     sorted_wrt (\<lambda>(m, n, _) (m', n', _). rng m n \<inter> rng m' n' = {}) rs"

text \<open>
  The address, the cursor and the end of a block; the data region of every block of the
  chain, from the end of its header (the pool header for the root block, the block
  header for the others) to the end of the block.
\<close>

definition geom :: "ngx_pool_data_t \<Rightarrow> addr \<times> addr \<times> addr" where
  "geom p = (b_addr p, d_last p, d_end p)"

definition data_regions :: "layout \<Rightarrow> ngx_pool_t \<Rightarrow> (nat \<times> nat) list" where
  "data_regions L pool =
     (case map geom (blocks pool) of
        [] \<Rightarrow> []
      | (b, l, e) # gs \<Rightarrow>
          (unat b + unat (sz_pool L), unat e)
          # map (\<lambda>(b, l, e). (unat b + unat (sz_data L), unat e)) gs)"

definition in_data_region :: "layout \<Rightarrow> ngx_pool_t \<Rightarrow> addr \<Rightarrow> size_t \<Rightarrow> bool" where
  "in_data_region L pool m n \<longleftrightarrow>
     (\<exists>(lo, hi)\<in>set (data_regions L pool). lo \<le> unat m \<and> unat m + unat n \<le> hi)"

text \<open>
  The assumptions on the platform constants: the alignment is not zero and divides the
  alignment of blocks, and the pool header is at least as large as the block header
  rounded up to the alignment.
\<close>

definition layout_ok :: "layout \<Rightarrow> bool" where
  "layout_ok L \<longleftrightarrow>
     0 < unat (NGX_ALIGNMENT L)
     \<and> unat (NGX_ALIGNMENT L) dvd unat (NGX_POOL_ALIGNMENT L)
     \<and> unat (sz_data L) + (unat (NGX_ALIGNMENT L) - 1) \<le> unat (sz_pool L)"

text \<open>
  A well-formed pool. Every block has the size of the root block, starts at an aligned
  address, and has its cursor between the end of its header and its end; the size of the
  blocks is a multiple of the alignment; a request of the threshold size fits into a
  block beside the pool header.
\<close>

definition block_ok :: "layout \<Rightarrow> nat \<Rightarrow> addr \<times> addr \<times> addr \<Rightarrow> bool" where
  "block_ok L P g \<longleftrightarrow>
     (case g of (b, l, e) \<Rightarrow>
        unat b + P = unat e
        \<and> unat (NGX_ALIGNMENT L) dvd unat b
        \<and> unat b + unat (sz_data L) \<le> unat l \<and> unat l \<le> unat e)"

definition pool_ok :: "layout \<Rightarrow> ngx_pool_t \<Rightarrow> bool" where
  "pool_ok L pool \<longleftrightarrow>
     blocks pool \<noteq> [] \<and> current pool < length (blocks pool)
     \<and> (\<forall>g\<in>set (map geom (blocks pool)). block_ok L (unat (psize_of pool)) g)
     \<and> unat (NGX_ALIGNMENT L) dvd unat (psize_of pool)
     \<and> unat (sz_pool L) + unat (pool_max pool) \<le> unat (psize_of pool)
     \<and> (case hd (map geom (blocks pool)) of (b, l, e) \<Rightarrow> unat b + unat (sz_pool L) \<le> unat l)"

text \<open>
  The contract of the underlying allocator: a block it hands out is aligned, lies within
  the address space, and overlaps neither a block of the pool nor another block it hands
  out.
\<close>

definition alloc_ok :: "layout \<Rightarrow> ngx_pool_t \<Rightarrow> world \<Rightarrow> bool" where
  "alloc_ok L pool w \<longleftrightarrow>
     (\<forall>a\<in>set (script w). a \<noteq> 0 \<longrightarrow>
        unat (NGX_POOL_ALIGNMENT L) dvd unat a
        \<and> unat a + unat (psize_of pool) < 2 ^ 64)"

definition regions :: "ngx_pool_t \<Rightarrow> world \<Rightarrow> (nat \<times> nat) list" where
  "regions pool w =
     map (\<lambda>(b, l, e). (unat b, unat e)) (map geom (blocks pool))
     @ map (\<lambda>a. (unat a, unat a + unat (psize_of pool))) (filter (\<lambda>a. a \<noteq> 0) (script w))"

definition separate :: "nat \<times> nat \<Rightarrow> nat \<times> nat \<Rightarrow> bool" where
  "separate r r' \<longleftrightarrow> snd r \<le> fst r' \<or> snd r' \<le> fst r"

definition regions_ok :: "ngx_pool_t \<Rightarrow> world \<Rightarrow> bool" where
  "regions_ok pool w \<longleftrightarrow> sorted_wrt separate (regions pool w)"

definition sys_ok :: "layout \<Rightarrow> ngx_pool_t \<Rightarrow> world \<Rightarrow> bool" where
  "sys_ok L pool w \<longleftrightarrow> layout_ok L \<and> pool_ok L pool \<and> alloc_ok L pool w \<and> regions_ok pool w"

text \<open>
  The bytes still to be given out: those past the cursor of a block of the chain, and
  those of the blocks the underlying allocator will hand out.
\<close>

definition free_set :: "ngx_pool_t \<Rightarrow> world \<Rightarrow> nat set" where
  "free_set pool w =
     (\<Union>(b, l, e)\<in>set (map geom (blocks pool)). {unat l ..< unat e})
     \<union> (\<Union>a\<in>set (script w) - {0}. {unat a ..< unat a + unat (psize_of pool)})"

text \<open>Rounding a number up to a multiple of \<open>a\<close>.\<close>

definition roundup :: "nat \<Rightarrow> nat \<Rightarrow> nat" where
  "roundup x a = ((x + (a - 1)) div a) * a"

subsection \<open>Example states\<close>

text \<open>
  A pool of two 1024-byte blocks on the LP64 layout, the first one full and with four
  recorded failures; five large nodes, the last one vacated; four cleanup nodes, of which
  the first (delete-file) and the second (close-file) point to the same file record,
  whose descriptor is 7.
\<close>

definition ex_world :: world where
  "ex_world = \<lparr>script = [], trace = [], fd_at = (\<lambda>a. if a = 4200 then 7 else 0)\<rparr>"

definition ex_pool :: ngx_pool_t where
  "ex_pool =
     \<lparr>blocks = [\<lparr>b_addr = 4096, d_last = 5120, d_end = 5120, d_failed = 4\<rparr>,
                \<lparr>b_addr = 8192, d_last = 8232, d_end = 9216, d_failed = 0\<rparr>],
      pool_max = 944, current = 0, p_chain = 0,
      large = [\<lparr>l_addr = 4400, alloc = 65536\<rparr>, \<lparr>l_addr = 4384, alloc = 69632\<rparr>,
               \<lparr>l_addr = 4368, alloc = 73728\<rparr>, \<lparr>l_addr = 4352, alloc = 77824\<rparr>,
               \<lparr>l_addr = 4336, alloc = 0\<rparr>],
      cleanup = [\<lparr>c_addr = 4304, handler = Some ngx_pool_delete_file, data = 4200\<rparr>,
                 \<lparr>c_addr = 4280, handler = Some ngx_pool_cleanup_file, data = 4200\<rparr>,
                 \<lparr>c_addr = 4256, handler = None, data = 0\<rparr>,
                 \<lparr>c_addr = 4232, handler = Some (user_handler 4198400), data = 4176\<rparr>]\<rparr>"

text \<open>A pool of one full block, with nothing registered.\<close>

definition full_pool :: ngx_pool_t where
  "full_pool =
     \<lparr>blocks = [\<lparr>b_addr = 4096, d_last = 5120, d_end = 5120, d_failed = 0\<rparr>],
      pool_max = 944, current = 0, p_chain = 0, large = [], cleanup = []\<rparr>"

text \<open>
  A pool as \<^verbatim>\<open>ngx_create_pool\<close> makes it for a size of 1024 bytes, and one for a size
  of 100 bytes, which is not a multiple of the alignment.
\<close>

definition fresh_pool :: ngx_pool_t where
  "fresh_pool =
     \<lparr>blocks = [\<lparr>b_addr = 4096, d_last = 4176, d_end = 5120, d_failed = 0\<rparr>],
      pool_max = 944, current = 0, p_chain = 0, large = [], cleanup = []\<rparr>"

definition tiny_pool :: ngx_pool_t where
  "tiny_pool =
     \<lparr>blocks = [\<lparr>b_addr = 4096, d_last = 4176, d_end = 4196, d_failed = 0\<rparr>],
      pool_max = 20, current = 0, p_chain = 0, large = [], cleanup = []\<rparr>"

text \<open>
  The pool of 1024 bytes after one cleanup node has been registered with size 0, or with
  size 8, and the caller has set its handler.
\<close>

definition registered_pool :: ngx_pool_t where
  "registered_pool =
     \<lparr>blocks = [\<lparr>b_addr = 4096, d_last = 4200, d_end = 5120, d_failed = 0\<rparr>],
      pool_max = 944, current = 0, p_chain = 0, large = [],
      cleanup = [\<lparr>c_addr = 4176, handler = Some (user_handler 4198400), data = 0\<rparr>]\<rparr>"


text \<open>
  A one-block pool with five cleanup nodes. The data of the first, second, fourth and
  fifth node is the file record at 4200, whose descriptor is 7; the first node has a
  handler of the caller, the second the delete-file handler, the others the close-file
  handler; the data of the third node is a record with another descriptor.
\<close>

definition file_pool :: ngx_pool_t where
  "file_pool =
     \<lparr>blocks = [\<lparr>b_addr = 4096, d_last = 4400, d_end = 5120, d_failed = 0\<rparr>],
      pool_max = 944, current = 0, p_chain = 0, large = [],
      cleanup = [\<lparr>c_addr = 4352, handler = Some (user_handler 4198400), data = 4200\<rparr>,
                 \<lparr>c_addr = 4328, handler = Some ngx_pool_delete_file, data = 4200\<rparr>,
                 \<lparr>c_addr = 4288, handler = Some ngx_pool_cleanup_file, data = 4312\<rparr>,
                 \<lparr>c_addr = 4264, handler = Some ngx_pool_cleanup_file, data = 4200\<rparr>,
                 \<lparr>c_addr = 4240, handler = Some ngx_pool_cleanup_file, data = 4200\<rparr>]\<rparr>"


section \<open>Properties\<close>

subsection \<open>Auxiliary facts\<close>

lemma new_events_append [simp]: "trace w' = trace w @ es \<Longrightarrow> new_events w w' = es"
  by (simp add: new_events_def)

lemma new_events_same [simp]: "new_events w w = []"
  by (simp add: new_events_def)

lemma first_with_Cons [simp]:
  "first_with P (x # xs) = (if P x then 0 else Suc (first_with P xs))"
  by (simp add: first_with_def)

lemma first_with_less: "\<exists>x\<in>set xs. P x \<Longrightarrow> first_with P xs < length xs"
  by (induction xs) auto

lemma first_with_holds: "\<exists>x\<in>set xs. P x \<Longrightarrow> P (xs ! first_with P xs)"
  by (induction xs) auto

text \<open>The underlying allocator answers from the script and reports the request.\<close>

lemma memalign_eq:
  "ngx_memalign al n w =
     (case script w of [] \<Rightarrow> 0 | a # _ \<Rightarrow> a,
      w\<lparr>script := tl (script w),
        trace := trace w @ [Ev_memalign al n (case script w of [] \<Rightarrow> 0 | a # _ \<Rightarrow> a)]\<rparr>)"
  by (simp add: ngx_memalign_def split: list.splits)

lemma alloc_eq:
  "ngx_alloc n w =
     (case script w of [] \<Rightarrow> 0 | a # _ \<Rightarrow> a,
      w\<lparr>script := tl (script w),
        trace := trace w @ [Ev_alloc n (case script w of [] \<Rightarrow> 0 | a # _ \<Rightarrow> a)]\<rparr>)"
  by (simp add: ngx_alloc_def split: list.splits)

text \<open>What destroying a pool adds to the trace.\<close>

lemma run_cleanups_world:
  "run_cleanups cs w = w\<lparr>trace := trace w @ cleanup_calls cs\<rparr>"
  by (induction cs arbitrary: w) (auto simp: cleanup_calls_def call_handler_def split: option.splits)

lemma free_larges_world:
  "free_larges ls w = w\<lparr>trace := trace w @ large_frees ls\<rparr>"
  by (induction ls arbitrary: w) (auto simp: large_frees_def ngx_free_def)

lemma free_blocks_world:
  "free_blocks ps w = w\<lparr>trace := trace w @ block_frees ps\<rparr>"
  by (induction ps w rule: free_blocks.induct) (auto simp: block_frees_def ngx_free_def)

lemma destroy_world:
  "ngx_destroy_pool pool w =
     w\<lparr>trace := trace w @ cleanup_calls (cleanup pool) @ large_frees (large pool)
                 @ block_frees (blocks pool)\<rparr>"
  by (simp add: ngx_destroy_pool_def run_cleanups_world free_larges_world free_blocks_world)

lemma cleanup_calls_filter: "filter is_call (cleanup_calls cs) = cleanup_calls cs"
  by (induction cs) (auto simp: cleanup_calls_def is_call_def)

lemma large_frees_filter: "filter is_call (large_frees ls) = []"
  by (induction ls) (auto simp: large_frees_def is_call_def)

lemma block_frees_filter: "filter is_call (block_frees ps) = []"
  by (induction ps) (auto simp: block_frees_def is_call_def)

lemma destroy_calls:
  "filter is_call (new_events w (ngx_destroy_pool pool w)) = cleanup_calls (cleanup pool)"
  by (simp add: destroy_world cleanup_calls_filter large_frees_filter block_frees_filter)

lemma cleanup_calls_append: "cleanup_calls (xs @ ys) = cleanup_calls xs @ cleanup_calls ys"
  by (simp add: cleanup_calls_def)

lemma cleanup_calls_cleared:
  "k < length cs \<Longrightarrow>
   cleanup_calls (cs[k := (cs ! k)\<lparr>handler := None\<rparr>]) =
     cleanup_calls (take k cs) @ cleanup_calls (drop (Suc k) cs)"
  by (simp add: upd_conv_take_nth_drop cleanup_calls_append) (simp add: cleanup_calls_def)

lemma reset_blocks_map:
  "reset_blocks L ps = map (\<lambda>p. p\<lparr>d_last := b_addr p + sz_pool L, d_failed := 0\<rparr>) ps"
  by (induction ps) auto

text \<open>The loops over the large list and over the cleanup list, in closed form.\<close>

lemma pfree_loop_eq:
  "pfree_loop p ls w =
     (if p \<in> alloc ` set ls
      then Some (ls[first_with (\<lambda>l. alloc l = p) ls := (ls ! first_with (\<lambda>l. alloc l = p) ls)\<lparr>alloc := 0\<rparr>],
                 ngx_free p w)
      else None)"
  by (induction ls) auto

lemma pfree_eq:
  "ngx_pfree pool p w =
     (if p \<in> alloc ` set (large pool)
      then (NGX_OK,
            pool\<lparr>large := (large pool)[first_with (\<lambda>l. alloc l = p) (large pool) :=
                     (large pool ! first_with (\<lambda>l. alloc l = p) (large pool))\<lparr>alloc := 0\<rparr>]\<rparr>,
            ngx_free p w)
      else (NGX_DECLINED, pool, w))"
  by (simp add: ngx_pfree_def pfree_loop_eq)


lemma cleanup_file_loop_eq:
  "cleanup_file_loop fd cs w =
     (if \<exists>c\<in>set cs. file_stop w fd c
      then (if null_file (cs ! first_with (file_stop w fd) cs) then Inl Null_dereference
            else Inr (cs[first_with (file_stop w fd) cs :=
                           (cs ! first_with (file_stop w fd) cs)\<lparr>handler := None\<rparr>],
                      call_handler ngx_pool_cleanup_file
                        (data (cs ! first_with (file_stop w fd) cs)) w))
      else Inr (cs, w))"
proof (induction cs)
  case Nil
  then show ?case by simp
next
  case (Cons c cs)
  have step: "cleanup_file_loop fd (c # cs) w =
     (if file_stop w fd c
      then (if null_file c then Inl Null_dereference
            else Inr (c\<lparr>handler := None\<rparr> # cs, call_handler ngx_pool_cleanup_file (data c) w))
      else (case cleanup_file_loop fd cs w of
              Inl f \<Rightarrow> Inl f
            | Inr (cs', w') \<Rightarrow> Inr (c # cs', w')))"
    by (auto simp: file_stop_def file_match_def null_file_def)
  show ?case
    unfolding step by (simp add: Cons.IH)
qed

lemma run_cleanup_file_eq:
  "ngx_pool_run_cleanup_file p fd w =
     (if \<exists>c\<in>set (cleanup p). file_stop w fd c
      then (if null_file (cleanup p ! first_with (file_stop w fd) (cleanup p))
            then Inl Null_dereference
            else Inr (p\<lparr>cleanup := (cleanup p)[first_with (file_stop w fd) (cleanup p) :=
                          (cleanup p ! first_with (file_stop w fd) (cleanup p))\<lparr>handler := None\<rparr>]\<rparr>,
                      call_handler ngx_pool_cleanup_file
                        (data (cleanup p ! first_with (file_stop w fd) (cleanup p))) w))
      else Inr (p, w))"
  by (simp add: ngx_pool_run_cleanup_file_def cleanup_file_loop_eq)

text \<open>
  The scan of \<^verbatim>\<open>ngx_palloc_large\<close> started with the counter at \<open>n\<close> looks at the first
  \<open>5 - n\<close> nodes: at five nodes when it starts at 0.
\<close>

lemma large_scan_eq:
  "n \<le> 4 \<Longrightarrow> large_scan p ls n =
     (if \<exists>l\<in>set (take (5 - n) ls). alloc l = 0
      then Some (ls[first_with (\<lambda>l. alloc l = 0) ls := (ls ! first_with (\<lambda>l. alloc l = 0) ls)\<lparr>alloc := p\<rparr>])
      else None)"
proof (induction ls arbitrary: n)
  case Nil
  then show ?case by simp
next
  case (Cons l ls)
  show ?case
  proof (cases "n = 4")
    case True
    then show ?thesis by simp
  next
    case False
    with Cons.prems have n: "Suc n \<le> 4" and t: "5 - n = Suc (5 - Suc n)" by simp_all
    show ?thesis
      by (simp add: Cons.IH [OF n] t del: take_Suc_Cons) (auto simp: t)
  qed
qed

text \<open>The walk of \<^verbatim>\<open>ngx_palloc_block\<close>, in closed form.\<close>

lemma failed_walk_eq:
  "i < length ps \<Longrightarrow>
   failed_walk (drop i ps) i c =
     (map (\<lambda>p. p\<lparr>d_failed := d_failed p + 1\<rparr>) (butlast (drop i ps)) @ [last ps],
      foldl (\<lambda>c k. if 4 < d_failed (ps ! k) then Suc k else c) c [i ..< length ps - 1])"
proof (induction "length ps - i" arbitrary: i c)
  case 0
  then show ?case by simp
next
  case (Suc n)
  show ?case
  proof (cases "Suc i < length ps")
    case False
    with Suc.prems have i: "i = length ps - 1" by simp
    with Suc.prems have "drop i ps = [last ps]"
      by (metis append_butlast_last_id append_eq_conv_conj length_butlast list.size(3) less_nat_zero_code)
    with i show ?thesis by simp
  next
    case True
    then have d: "drop i ps = ps ! i # ps ! Suc i # drop (Suc (Suc i)) ps"
      by (simp add: Cons_nth_drop_Suc Suc_lessD)
    have d': "drop (Suc i) ps = ps ! Suc i # drop (Suc (Suc i)) ps"
      using True by (simp add: Cons_nth_drop_Suc)
    have n: "n = length ps - Suc i" using Suc.hyps(2) by simp
    have u: "[i ..< length ps - 1] = i # [Suc i ..< length ps - 1]"
      using True by (simp add: upt_conv_Cons)
    have l: "last (drop (Suc i) ps) = last ps" using True by simp
    show ?thesis
      using Suc.hyps(1) [OF n True] d d' u l
      by (simp add: Let_def del: drop_Suc_Cons)
  qed
qed

text \<open>
  What an allocation leaves alone, and what it reports to the outside: a failed request
  to the underlying allocator makes the result null and leaves the pool as it was.
\<close>

lemma palloc_block_frame:
  assumes "ngx_palloc_block L pool sz w = (r, pool', w')"
  shows "cleanup pool' = cleanup pool \<and> large pool' = large pool \<and> pool_max pool' = pool_max pool
       \<and> fd_at w' = fd_at w
       \<and> (\<exists>al n a. trace w' = trace w @ [Ev_memalign al n a] \<and> (a = 0 \<longrightarrow> r = 0 \<and> pool' = pool))"
  using assms
  by (auto simp: ngx_palloc_block_def memalign_eq Let_def split: prod.splits if_splits)

lemma palloc_small_frame:
  assumes "ngx_palloc_small L pool sz al w = (r, pool', w')"
  shows "cleanup pool' = cleanup pool \<and> large pool' = large pool \<and> pool_max pool' = pool_max pool
       \<and> fd_at w' = fd_at w
       \<and> (\<exists>es. trace w' = trace w @ es \<and> (\<forall>e\<in>set es. \<forall>n a. e \<noteq> Ev_alloc n a) \<and>
             ((\<exists>e\<in>set es. request_failed e) \<longrightarrow> r = 0 \<and> pool' = pool))"
proof (cases "small_loop L (drop (current pool) (blocks pool)) sz al")
  case None
  with assms have "ngx_palloc_block L pool sz w = (r, pool', w')"
    by (simp add: ngx_palloc_small_def)
  from palloc_block_frame [OF this] show ?thesis
    by (auto simp: request_failed_def)
next
  case (Some a)
  with assms show ?thesis
    by (auto simp: ngx_palloc_small_def split: prod.splits)
qed

lemma palloc_large_frame:
  assumes "ngx_palloc_large L pool sz w = (r, pool', w')"
  shows "cleanup pool' = cleanup pool \<and> pool_max pool' = pool_max pool \<and> fd_at w' = fd_at w
       \<and> (\<exists>es. trace w' = trace w @ es \<and>
             ((\<exists>e\<in>set es. request_failed e) \<longrightarrow>
                r = 0 \<and> pool' = pool \<and>
                (\<forall>p. p \<noteq> 0 \<and> Ev_alloc sz p \<in> set es \<longrightarrow> last es = Ev_free p)))"
proof -
  obtain p w1 where a: "ngx_alloc sz w = (p, w1)" by (cases "ngx_alloc sz w")
  then have w1: "trace w1 = trace w @ [Ev_alloc sz p]" "fd_at w1 = fd_at w"
    by (auto simp: alloc_eq)
  show ?thesis
  proof (cases "p = 0")
    case True
    with assms a w1 show ?thesis
      by (auto simp: ngx_palloc_large_def)
  next
    case False
    note p = this
    show ?thesis
    proof (cases "large_scan p (large pool) 0")
      case (Some ls)
      with assms a p have "r = p" "pool' = pool\<lparr>large := ls\<rparr>" "w' = w1"
        by (auto simp: ngx_palloc_large_def)
      with w1 p show ?thesis by (auto simp: request_failed_def)
    next
      case None
      obtain lg pool2 w2 where s: "ngx_palloc_small L pool (sz_large L) True w1 = (lg, pool2, w2)"
        by (cases "ngx_palloc_small L pool (sz_large L) True w1")
      from palloc_small_frame [OF s] obtain es where
        fr: "cleanup pool2 = cleanup pool" "pool_max pool2 = pool_max pool" "fd_at w2 = fd_at w1"
          and es: "trace w2 = trace w1 @ es" "\<forall>e\<in>set es. \<forall>n a. e \<noteq> Ev_alloc n a"
          and fl: "(\<exists>e\<in>set es. request_failed e) \<longrightarrow> lg = 0 \<and> pool2 = pool"
        by blast
      show ?thesis
      proof (cases "lg = 0")
        case True
        with assms a p None s have res: "r = 0" "pool' = pool2" "w' = ngx_free p w2"
          by (auto simp: ngx_palloc_large_def)
        have tr: "trace w' = trace w @ (Ev_alloc sz p # es @ [Ev_free p])"
          using res es w1 by (simp add: ngx_free_def)
        have "fd_at w' = fd_at w" using res fr w1 by (simp add: ngx_free_def)
        moreover have "(\<exists>e\<in>set (Ev_alloc sz p # es @ [Ev_free p]). request_failed e) \<longrightarrow>
                r = 0 \<and> pool' = pool \<and>
                (\<forall>q. q \<noteq> 0 \<and> Ev_alloc sz q \<in> set (Ev_alloc sz p # es @ [Ev_free p])
                   \<longrightarrow> last (Ev_alloc sz p # es @ [Ev_free p]) = Ev_free q)"
          using res fl p es(2) by (auto simp: request_failed_def)
        ultimately show ?thesis using tr fr res by blast
      next
        case False
        with assms a p None s have res: "r = p"
          "pool' = pool2\<lparr>large := \<lparr>l_addr = lg, alloc = p\<rparr> # large pool2\<rparr>" "w' = w2"
          by (auto simp: ngx_palloc_large_def)
        have tr: "trace w' = trace w @ (Ev_alloc sz p # es)"
          using res es w1 by simp
        have "\<not> (\<exists>e\<in>set (Ev_alloc sz p # es). request_failed e)"
          using fl False p by (auto simp: request_failed_def)
        with tr fr res w1 show ?thesis by auto
      qed
    qed
  qed
qed

lemma palloc_frame:
  assumes "ngx_palloc L pool sz w = (r, pool', w')"
  shows "cleanup pool' = cleanup pool \<and> pool_max pool' = pool_max pool \<and> fd_at w' = fd_at w
       \<and> (\<exists>es. trace w' = trace w @ es \<and> ((\<exists>e\<in>set es. request_failed e) \<longrightarrow> r = 0 \<and> pool' = pool))"
proof (cases "sz \<le> pool_max pool")
  case True
  with assms have "ngx_palloc_small L pool sz True w = (r, pool', w')"
    by (simp add: ngx_palloc_def)
  from palloc_small_frame [OF this] show ?thesis by blast
next
  case False
  with assms have "ngx_palloc_large L pool sz w = (r, pool', w')"
    by (simp add: ngx_palloc_def)
  from palloc_large_frame [OF this] show ?thesis by blast
qed

text \<open>
  The store \<^verbatim>\<open>c->data = d\<close> changes the chain only when \<^verbatim>\<open>c\<close> is the address of a linked
  node, and never the addresses of the nodes.
\<close>

lemma store_data_fresh: "c \<notin> c_addr ` set cs \<Longrightarrow> store_data c d cs = cs"
  by (induction cs) (auto simp: store_data_def)

lemma store_data_addr: "c_addr ` set (store_data c d cs) = c_addr ` set cs"
  by (induction cs) (auto simp: store_data_def)

text \<open>
  A call of \<^verbatim>\<open>ngx_pool_cleanup_add\<close> that returns a node has linked it, with an empty
  handler, in front of the chain as it was. A call that returns null has either left the
  chain alone or overwritten, with null, the data of a node that is linked. A failed
  request to the underlying allocator makes the result null.
\<close>

lemma cleanup_add_frame:
  assumes "ngx_pool_cleanup_add L pool sz w = Inr (r, pool', w')"
  shows "(\<exists>es. trace w' = trace w @ es \<and> ((\<exists>e\<in>set es. request_failed e) \<longrightarrow> r = 0))
       \<and> (r \<noteq> 0 \<longrightarrow> (\<exists>d. cleanup pool' = \<lparr>c_addr = r, handler = None, data = d\<rparr> # cleanup pool))
       \<and> (r = 0 \<longrightarrow> cleanup pool' = cleanup pool
                    \<or> (\<exists>c\<in>c_addr ` set (cleanup pool). cleanup pool' = store_data c 0 (cleanup pool)))"
proof -
  obtain c p1 w1 where a: "ngx_palloc L pool (sz_cleanup L) w = (c, p1, w1)"
    by (cases "ngx_palloc L pool (sz_cleanup L) w")
  from palloc_frame [OF a] obtain es1 where
    f1: "cleanup p1 = cleanup pool" "trace w1 = trace w @ es1"
      "(\<exists>e\<in>set es1. request_failed e) \<longrightarrow> c = 0 \<and> p1 = pool"
    by blast
  show ?thesis
  proof (cases "c = 0")
    case True
    with assms a have "r = 0" "pool' = p1" "w' = w1"
      by (auto simp: ngx_pool_cleanup_add_def)
    with f1 show ?thesis by auto
  next
    case False
    note c = this
    from assms a c have no: "\<not> (\<exists>n\<in>set (cleanup p1). node_overlap L c (c_addr n))"
      by (auto simp: ngx_pool_cleanup_add_def split: if_splits)
    show ?thesis
    proof (cases "sz = 0")
      case True
      with assms a c no
      have l: "link_cleanup c 0 (p1\<lparr>cleanup := store_data c 0 (cleanup p1)\<rparr>) w1 = Inr (r, pool', w')"
        by (auto simp: ngx_pool_cleanup_add_def)
      then have fr: "c \<notin> c_addr ` set (cleanup p1)"
        by (auto simp: link_cleanup_def store_data_addr split: if_splits)
      with l have "r = c" "pool' = p1\<lparr>cleanup := \<lparr>c_addr = c, handler = None, data = 0\<rparr> # cleanup p1\<rparr>" "w' = w1"
        by (auto simp: link_cleanup_def store_data_addr store_data_fresh split: if_splits)
      with f1 c show ?thesis by auto
    next
      case False
      obtain d p2 w2 where b: "ngx_palloc L p1 sz w1 = (d, p2, w2)"
        by (cases "ngx_palloc L p1 sz w1")
      from palloc_frame [OF b] obtain es2 where
        f2: "cleanup p2 = cleanup p1" "trace w2 = trace w1 @ es2"
          "(\<exists>e\<in>set es2. request_failed e) \<longrightarrow> d = 0 \<and> p2 = p1"
        by blast
      have tr: "trace w2 = trace w @ (es1 @ es2)" using f1 f2 by simp
      show ?thesis
      proof (cases "d = 0")
        case True
        with assms a b c no False
        have res: "r = 0" "pool' = p2\<lparr>cleanup := store_data c 0 (cleanup p2)\<rparr>" "w' = w2"
          by (auto simp: ngx_pool_cleanup_add_def Let_def)
        have "cleanup pool' = cleanup pool
              \<or> (\<exists>c\<in>c_addr ` set (cleanup pool). cleanup pool' = store_data c 0 (cleanup pool))"
        proof (cases "c \<in> c_addr ` set (cleanup pool)")
          case True
          with res f1 f2 show ?thesis by auto
        next
          case False
          with res f1 f2 show ?thesis by (simp add: store_data_fresh)
        qed
        with res tr show ?thesis by auto
      next
        case dn: False
        with assms a b c no False
        have l: "link_cleanup c d (p2\<lparr>cleanup := store_data c d (cleanup p2)\<rparr>) w2 = Inr (r, pool', w')"
          by (auto simp: ngx_pool_cleanup_add_def Let_def)
        then have fr: "c \<notin> c_addr ` set (cleanup p2)"
          by (auto simp: link_cleanup_def store_data_addr split: if_splits)
        with l have res: "r = c"
          "pool' = p2\<lparr>cleanup := \<lparr>c_addr = c, handler = None, data = d\<rparr> # cleanup p2\<rparr>" "w' = w2"
          by (auto simp: link_cleanup_def store_data_addr store_data_fresh split: if_splits)
        have "\<not> (\<exists>e\<in>set (es1 @ es2). request_failed e)"
          using f1 f2 c dn by auto
        with res f1 f2 tr c show ?thesis by auto
      qed
    qed
  qed
qed

text \<open>
  The chain becomes a cycle only through a node that is linked when the call is made.
\<close>

lemma cleanup_add_cycle:
  assumes "ngx_pool_cleanup_add L pool sz w = Inl (Chain_cycle c)"
  shows "c \<in> c_addr ` set (cleanup pool)"
proof -
  obtain c1 p1 w1 where a: "ngx_palloc L pool (sz_cleanup L) w = (c1, p1, w1)"
    by (cases "ngx_palloc L pool (sz_cleanup L) w")
  from palloc_frame [OF a] have f1: "cleanup p1 = cleanup pool" by blast
  obtain d p2 w2 where b: "ngx_palloc L p1 sz w1 = (d, p2, w2)"
    by (cases "ngx_palloc L p1 sz w1")
  from palloc_frame [OF b] have f2: "cleanup p2 = cleanup p1" by blast
  from assms a b f1 f2 show ?thesis
    by (auto simp: ngx_pool_cleanup_add_def link_cleanup_def store_data_addr Let_def
        split: if_splits)
qed

subsection \<open>Destroying and resetting a pool\<close>

text \<open>
  C2, as amended. When \<^verbatim>\<open>ngx_destroy_pool\<close> is called, after running the cleanup
  handlers and releasing the large payloads, it releases every block of the chain to the
  underlying allocator in chain order, starting with the root block: the root block is
  released first and the last block of the chain is released last. (The successor of a
  block is read before the block is released.)
\<close>

theorem destroy_releases_blocks_root_first:
  assumes "blocks pool = r # ps"
  shows "new_events w (ngx_destroy_pool pool w) =
           cleanup_calls (cleanup pool) @ large_frees (large pool)
           @ Ev_free (b_addr r) # map (\<lambda>p. Ev_free (b_addr p)) ps"
  using assms by (simp add: destroy_world block_frees_def)

theorem destroy_releases_blocks_root_first_witness:
  "blocks ex_pool = hd (blocks ex_pool) # tl (blocks ex_pool)
   \<and> new_events ex_world (ngx_destroy_pool ex_pool ex_world) =
       [Ev_call ngx_pool_delete_file 4200, Ev_call ngx_pool_cleanup_file 4200,
        Ev_call (user_handler 4198400) 4176,
        Ev_free 65536, Ev_free 69632, Ev_free 73728, Ev_free 77824,
        Ev_free 4096, Ev_free 8192]"
proof -
  have h: "blocks ex_pool = hd (blocks ex_pool) # tl (blocks ex_pool)"
    by (simp add: ex_pool_def)
  from destroy_releases_blocks_root_first [OF h, of ex_world] h show ?thesis
    by (simp add: ex_pool_def cleanup_calls_def large_frees_def)
qed

text \<open>
  The claim C2 as stated, that the root block is released last, fails on a pool of two
  blocks: the last release is that of the second block.
\<close>

theorem destroy_root_not_released_last:
  "last (trace (ngx_destroy_pool ex_pool ex_world)) = Ev_free (b_addr (blocks ex_pool ! 1))
   \<and> last (trace (ngx_destroy_pool ex_pool ex_world)) \<noteq> Ev_free (b_addr (blocks ex_pool ! 0))"
  by (simp add: ngx_destroy_pool_def ex_pool_def ex_world_def ngx_free_def call_handler_def)

text \<open>What \<^verbatim>\<open>ngx_reset_pool\<close> does, field by field.\<close>

lemma reset_pool_eq:
  "ngx_reset_pool L pool w =
     (pool\<lparr>blocks := map (\<lambda>p. p\<lparr>d_last := b_addr p + sz_pool L, d_failed := 0\<rparr>) (blocks pool),
           current := 0, p_chain := 0, large := []\<rparr>,
      w\<lparr>trace := trace w @ large_frees (large pool)\<rparr>)"
  by (simp add: ngx_reset_pool_def reset_blocks_map free_larges_world)

text \<open>
  C3. After \<^verbatim>\<open>ngx_reset_pool\<close> the cursor of every block should be just past the header of
  that block, and the heads of the large list and of the cleanup list should be absent.
  The code does otherwise. Take a pool created with a size of 1024 bytes at 4096, on
  which a cleanup node is registered (it lies at 4176, in the root block) and given a
  handler, and on which an allocation of 944 bytes then makes \<^verbatim>\<open>ngx_palloc_block\<close> add a
  second block at 8192, whose data starts at 8224, past its 32-byte header. After
  \<^verbatim>\<open>ngx_reset_pool\<close> the cleanup list still holds the node at 4176, although the cursor
  of the root block is back at 4176, so that the memory of the node is free to be given
  out again; and the cursor of the second block is 8272, which is 80 bytes, the size of
  the pool header, past the block, and not 8224.
\<close>

theorem reset_leaves_cleanup_linked:
  "ngx_create_pool lp64 1024 (ex_world\<lparr>script := [4096, 8192]\<rparr>) =
     (Some fresh_pool, ex_world\<lparr>script := [8192], trace := [Ev_memalign 16 1024 4096]\<rparr>)
   \<and> ngx_pool_cleanup_add lp64 fresh_pool 0
        (ex_world\<lparr>script := [8192], trace := [Ev_memalign 16 1024 4096]\<rparr>) =
       Inr (4176,
            fresh_pool\<lparr>blocks := [\<lparr>b_addr = 4096, d_last = 4200, d_end = 5120, d_failed = 0\<rparr>],
                       cleanup := [\<lparr>c_addr = 4176, handler = None, data = 0\<rparr>]\<rparr>,
            ex_world\<lparr>script := [8192], trace := [Ev_memalign 16 1024 4096]\<rparr>)
   \<and> set_handler 4176 (user_handler 4198400)
        (fresh_pool\<lparr>blocks := [\<lparr>b_addr = 4096, d_last = 4200, d_end = 5120, d_failed = 0\<rparr>],
                    cleanup := [\<lparr>c_addr = 4176, handler = None, data = 0\<rparr>]\<rparr>) = registered_pool
   \<and> ngx_palloc lp64 registered_pool 944
        (ex_world\<lparr>script := [8192], trace := [Ev_memalign 16 1024 4096]\<rparr>) =
       (8224,
        registered_pool\<lparr>blocks := [\<lparr>b_addr = 4096, d_last = 4200, d_end = 5120, d_failed = 0\<rparr>,
                                    \<lparr>b_addr = 8192, d_last = 9168, d_end = 9216, d_failed = 0\<rparr>]\<rparr>,
        ex_world\<lparr>script := [], trace := [Ev_memalign 16 1024 4096, Ev_memalign 16 1024 8192]\<rparr>)
   \<and> ngx_reset_pool lp64
        (registered_pool\<lparr>blocks := [\<lparr>b_addr = 4096, d_last = 4200, d_end = 5120, d_failed = 0\<rparr>,
                                    \<lparr>b_addr = 8192, d_last = 9168, d_end = 9216, d_failed = 0\<rparr>]\<rparr>)
        (ex_world\<lparr>script := [], trace := [Ev_memalign 16 1024 4096, Ev_memalign 16 1024 8192]\<rparr>) =
       (registered_pool\<lparr>blocks := [\<lparr>b_addr = 4096, d_last = 4176, d_end = 5120, d_failed = 0\<rparr>,
                                    \<lparr>b_addr = 8192, d_last = 8272, d_end = 9216, d_failed = 0\<rparr>]\<rparr>,
        ex_world\<lparr>script := [], trace := [Ev_memalign 16 1024 4096, Ev_memalign 16 1024 8192]\<rparr>)
   \<and> cleanup (registered_pool\<lparr>blocks := [\<lparr>b_addr = 4096, d_last = 4176, d_end = 5120, d_failed = 0\<rparr>,
                                    \<lparr>b_addr = 8192, d_last = 8272, d_end = 9216, d_failed = 0\<rparr>]\<rparr>) =
       [\<lparr>c_addr = 4176, handler = Some (user_handler 4198400), data = 0\<rparr>]
   \<and> (8192 :: addr) + sz_data lp64 = 8224"
  by (simp add: ngx_create_pool_def ngx_pool_cleanup_add_def link_cleanup_def store_data_def
      node_overlap_def set_handler_def ngx_reset_pool_def ngx_palloc_def ngx_palloc_small_def
      ngx_palloc_block_def ngx_memalign_def ngx_align_ptr_def Let_def fresh_pool_def
      registered_pool_def ex_world_def lp64_def)

text \<open>
  The callbacks that \<^verbatim>\<open>ngx_destroy_pool\<close> invokes on a chain that is a list are those of
  the cleanup nodes whose handler is not empty, one call for each node, in link order
  (lemma \<open>destroy_calls\<close>). When \<^verbatim>\<open>ngx_pool_run_cleanup_file\<close> finds a node for the
  descriptor, it invokes the handler of that node once, and a following
  \<^verbatim>\<open>ngx_destroy_pool\<close> invokes the handlers of the other nodes only.
\<close>

lemma destroy_after_run_cleanup_file:
  assumes "ngx_pool_run_cleanup_file pool fd w = Inr (pool2, w2)"
    and "\<exists>x\<in>set (cleanup pool). file_stop w fd x"
  shows "new_events w w2 =
          [Ev_call ngx_pool_cleanup_file (data (cleanup pool ! first_with (file_stop w fd) (cleanup pool)))]
       \<and> filter is_call (new_events w2 (ngx_destroy_pool pool2 w2)) =
            cleanup_calls (take (first_with (file_stop w fd) (cleanup pool)) (cleanup pool))
            @ cleanup_calls (drop (Suc (first_with (file_stop w fd) (cleanup pool))) (cleanup pool))"
proof -
  let ?k = "first_with (file_stop w fd) (cleanup pool)"
  from assms(2) have k: "?k < length (cleanup pool)" by (rule first_with_less)
  from assms have p2: "pool2 = pool\<lparr>cleanup := (cleanup pool)[?k := (cleanup pool ! ?k)\<lparr>handler := None\<rparr>]\<rparr>"
    and w2: "w2 = call_handler ngx_pool_cleanup_file (data (cleanup pool ! ?k)) w"
    by (simp_all add: run_cleanup_file_eq split: if_splits)
  from w2 have "new_events w w2 = [Ev_call ngx_pool_cleanup_file (data (cleanup pool ! ?k))]"
    by (simp add: call_handler_def)
  moreover from p2 k have "filter is_call (new_events w2 (ngx_destroy_pool pool2 w2)) =
          cleanup_calls (take ?k (cleanup pool)) @ cleanup_calls (drop (Suc ?k) (cleanup pool))"
    by (simp add: destroy_calls cleanup_calls_cleared)
  ultimately show ?thesis by simp
qed

text \<open>
  C6. After \<^verbatim>\<open>ngx_destroy_pool\<close> every cleanup handler that was not empty should have been
  invoked exactly once. The code does otherwise when a cleanup node is registered after
  a reset. Take a pool created with a size of 1024 bytes at 4096, on which a cleanup
  node is registered and given a handler: the node lies at 4176. \<^verbatim>\<open>ngx_reset_pool\<close>
  moves the cursor back to 4176 and leaves the node linked. The next
  \<^verbatim>\<open>ngx_pool_cleanup_add\<close> obtains the memory at 4176 for its node, and
  \<^verbatim>\<open>c->next = p->cleanup\<close> makes the node its own successor: the chain is a cycle, and
  the loop of \<^verbatim>\<open>ngx_destroy_pool\<close> over it invokes the handler the caller sets on the
  node again and again, without end.
\<close>

theorem cleanup_add_after_reset_cycle:
  "ngx_create_pool lp64 1024 (ex_world\<lparr>script := [4096]\<rparr>) = (Some fresh_pool, (ex_world\<lparr>script := [], trace := [Ev_memalign 16 1024 4096]\<rparr>))
   \<and> ngx_pool_cleanup_add lp64 fresh_pool 0 (ex_world\<lparr>script := [], trace := [Ev_memalign 16 1024 4096]\<rparr>) =
       Inr (4176,
            fresh_pool\<lparr>blocks := [\<lparr>b_addr = 4096, d_last = 4200, d_end = 5120, d_failed = 0\<rparr>],
                       cleanup := [\<lparr>c_addr = 4176, handler = None, data = 0\<rparr>]\<rparr>,
            (ex_world\<lparr>script := [], trace := [Ev_memalign 16 1024 4096]\<rparr>))
   \<and> set_handler 4176 (user_handler 4198400)
        (fresh_pool\<lparr>blocks := [\<lparr>b_addr = 4096, d_last = 4200, d_end = 5120, d_failed = 0\<rparr>],
                    cleanup := [\<lparr>c_addr = 4176, handler = None, data = 0\<rparr>]\<rparr>) = registered_pool
   \<and> ngx_reset_pool lp64 registered_pool (ex_world\<lparr>script := [], trace := [Ev_memalign 16 1024 4096]\<rparr>) =
       (registered_pool\<lparr>blocks := [\<lparr>b_addr = 4096, d_last = 4176, d_end = 5120, d_failed = 0\<rparr>]\<rparr>,
        (ex_world\<lparr>script := [], trace := [Ev_memalign 16 1024 4096]\<rparr>))
   \<and> ngx_pool_cleanup_add lp64
        (registered_pool\<lparr>blocks := [\<lparr>b_addr = 4096, d_last = 4176, d_end = 5120, d_failed = 0\<rparr>]\<rparr>)
        0 (ex_world\<lparr>script := [], trace := [Ev_memalign 16 1024 4096]\<rparr>) =
       Inl (Chain_cycle 4176)"
  by (simp add: ngx_create_pool_def ngx_pool_cleanup_add_def link_cleanup_def store_data_def
      node_overlap_def set_handler_def ngx_reset_pool_def ngx_palloc_def ngx_palloc_small_def
      ngx_memalign_def ngx_align_ptr_def Let_def fresh_pool_def registered_pool_def
      ex_world_def lp64_def)

subsection \<open>Large allocations\<close>

text \<open>
  C4. With five large nodes of which only the fifth is vacated, \<^verbatim>\<open>ngx_palloc_large\<close>
  attaches the new payload to the fifth node: the scan looks at five nodes, not at four
  as the claim and the comment in the source say.
\<close>

theorem palloc_large_reuses_fifth_node:
  "ngx_palloc_large lp64 ex_pool 5000 (ex_world\<lparr>script := [81920]\<rparr>) =
     (81920,
      ex_pool\<lparr>large := [\<lparr>l_addr = 4400, alloc = 65536\<rparr>, \<lparr>l_addr = 4384, alloc = 69632\<rparr>,
               \<lparr>l_addr = 4368, alloc = 73728\<rparr>, \<lparr>l_addr = 4352, alloc = 77824\<rparr>,
               \<lparr>l_addr = 4336, alloc = 81920\<rparr>]\<rparr>,
      ex_world\<lparr>script := [], trace := [Ev_alloc 5000 81920]\<rparr>)"
  by (simp add: ngx_palloc_large_def ngx_alloc_def ex_pool_def ex_world_def)

text \<open>
  When a request to the underlying allocator fails inside \<^verbatim>\<open>ngx_palloc_large\<close>, the
  result is null, the pool is as it was before the call (in particular its large list),
  and a payload that had been obtained is released again, as the last thing the call
  does.
\<close>

lemma palloc_large_failure_undone:
  assumes "ngx_palloc_large L pool sz w = (r, pool', w')"
    and "\<exists>e\<in>set (new_events w w'). request_failed e"
  shows "r = 0 \<and> pool' = pool
       \<and> (\<forall>p. p \<noteq> 0 \<and> Ev_alloc sz p \<in> set (new_events w w') \<longrightarrow> last (new_events w w') = Ev_free p)"
proof -
  from palloc_large_frame [OF assms(1)] obtain es where
    es: "trace w' = trace w @ es"
    "(\<exists>e\<in>set es. request_failed e) \<longrightarrow>
                r = 0 \<and> pool' = pool \<and>
                (\<forall>p. p \<noteq> 0 \<and> Ev_alloc sz p \<in> set es \<longrightarrow> last es = Ev_free p)"
    by blast
  from es(1) have "new_events w w' = es" by simp
  with assms(2) es(2) show ?thesis by simp
qed

lemma palloc_large_failure_example:
  "ngx_palloc_large lp64 full_pool 5000 (ex_world\<lparr>script := [81920]\<rparr>) =
     (0, full_pool,
      ex_world\<lparr>script := [], trace := [Ev_alloc 5000 81920, Ev_memalign 16 1024 0, Ev_free 81920]\<rparr>)"
  by (simp add: ngx_palloc_large_def ngx_alloc_def ngx_palloc_small_def ngx_palloc_block_def
      ngx_memalign_def ngx_free_def full_pool_def ex_world_def lp64_def ngx_align_ptr_def Let_def)





text \<open>
  The operations of the pool keep the payloads of the large list pairwise distinct, as
  long as the underlying allocator does not hand out an address that is still a payload
  of the list: a new pool and a pool after a reset have no large nodes, small
  allocations do not change the large list (lemma \<open>palloc_small_frame\<close>), \<^verbatim>\<open>ngx_pfree\<close>
  vacates a node, and \<^verbatim>\<open>ngx_palloc_large\<close> and \<^verbatim>\<open>ngx_pmemalign\<close> store the address just
  handed out.
\<close>

lemma create_payloads_distinct:
  "ngx_create_pool L sz w = (Some pool, w') \<Longrightarrow> large pool = []"
  by (auto simp: ngx_create_pool_def Let_def split: prod.splits if_splits)

lemma reset_payloads_distinct:
  "ngx_reset_pool L pool w = (pool', w') \<Longrightarrow> large pool' = []"
  by (auto simp: ngx_reset_pool_def)

lemma large_scan_payloads_distinct:
  assumes "distinct (filter (\<lambda>a. a \<noteq> 0) (map alloc ls))" and "p \<notin> alloc ` set ls"
    and "large_scan p ls n = Some ls'"
  shows "distinct (filter (\<lambda>a. a \<noteq> 0) (map alloc ls')) \<and> alloc ` set ls' \<subseteq> insert p (alloc ` set ls)"
  using assms
proof (induction ls arbitrary: n ls')
  case Nil
  then show ?case by simp
next
  case (Cons l ls)
  show ?case
  proof (cases "alloc l = 0")
    case True
    with Cons.prems show ?thesis by auto
  next
    case False
    with Cons.prems obtain ls2 where s: "large_scan p ls (Suc n) = Some ls2" and r: "ls' = l # ls2"
      by (auto split: if_splits option.splits)
    from Cons.prems have "distinct (filter (\<lambda>a. a \<noteq> 0) (map alloc ls))" and "p \<notin> alloc ` set ls"
      by (auto split: if_splits)
    from Cons.IH [OF this s]
    have ih: "distinct (filter (\<lambda>a. a \<noteq> 0) (map alloc ls2))" "alloc ` set ls2 \<subseteq> insert p (alloc ` set ls)"
      by auto
    from Cons.prems False have "alloc l \<notin> alloc ` set ls" "alloc l \<noteq> p" by auto
    with ih r False show ?thesis by auto
  qed
qed

lemma palloc_large_payloads_distinct:
  assumes "distinct (filter (\<lambda>a. a \<noteq> 0) (map alloc (large pool)))"
    and "\<forall>a\<in>set (take 1 (script w)). a \<notin> alloc ` set (large pool)"
    and "ngx_palloc_large L pool sz w = (r, pool', w')"
  shows "distinct (filter (\<lambda>a. a \<noteq> 0) (map alloc (large pool')))"
proof -
  obtain p w1 where a: "ngx_alloc sz w = (p, w1)" by (cases "ngx_alloc sz w")
  show ?thesis
  proof (cases "p = 0")
    case True
    with assms a show ?thesis by (auto simp: ngx_palloc_large_def)
  next
    case False
    with a assms(2) have fresh: "p \<notin> alloc ` set (large pool)"
      by (auto simp: ngx_alloc_def split: list.splits)
    show ?thesis
    proof (cases "large_scan p (large pool) 0")
      case (Some ls)
      with assms(3) a False have "pool' = pool\<lparr>large := ls\<rparr>"
        by (auto simp: ngx_palloc_large_def)
      with large_scan_payloads_distinct [OF assms(1) fresh Some] show ?thesis by simp
    next
      case None
      obtain lg pool2 w2 where s: "ngx_palloc_small L pool (sz_large L) True w1 = (lg, pool2, w2)"
        by (cases "ngx_palloc_small L pool (sz_large L) True w1")
      from palloc_small_frame [OF s] have l2: "large pool2 = large pool" by blast
      from assms(3) a False None s
      have "large pool' = large pool2 \<or> large pool' = \<lparr>l_addr = lg, alloc = p\<rparr> # large pool2"
        by (auto simp: ngx_palloc_large_def split: if_splits)
      with l2 assms(1) fresh show ?thesis by auto
    qed
  qed
qed

lemma pmemalign_payloads_distinct:
  assumes "distinct (filter (\<lambda>a. a \<noteq> 0) (map alloc (large pool)))"
    and "\<forall>a\<in>set (take 1 (script w)). a \<notin> alloc ` set (large pool)"
    and "ngx_pmemalign L pool sz al w = (r, pool', w')"
  shows "distinct (filter (\<lambda>a. a \<noteq> 0) (map alloc (large pool')))"
proof -
  obtain p w1 where a: "ngx_memalign al sz w = (p, w1)" by (cases "ngx_memalign al sz w")
  show ?thesis
  proof (cases "p = 0")
    case True
    with assms a show ?thesis by (auto simp: ngx_pmemalign_def)
  next
    case False
    with a assms(2) have fresh: "p \<notin> alloc ` set (large pool)"
      by (auto simp: ngx_memalign_def split: list.splits)
    obtain lg pool2 w2 where s: "ngx_palloc_small L pool (sz_large L) True w1 = (lg, pool2, w2)"
      by (cases "ngx_palloc_small L pool (sz_large L) True w1")
    from palloc_small_frame [OF s] have l2: "large pool2 = large pool" by blast
    from assms(3) a False s
    have "large pool' = large pool2 \<or> large pool' = \<lparr>l_addr = lg, alloc = p\<rparr> # large pool2"
      by (auto simp: ngx_pmemalign_def split: if_splits)
    with l2 assms(1) fresh show ?thesis by auto
  qed
qed

lemma pfree_payloads_distinct:
  assumes "distinct (filter (\<lambda>a. a \<noteq> 0) (map alloc (large pool)))"
    and "ngx_pfree pool p w = (r, pool', w')"
  shows "distinct (filter (\<lambda>a. a \<noteq> 0) (map alloc (large pool')))"
proof -
  have upd: "distinct (filter (\<lambda>a. a \<noteq> 0) (map alloc ls)) \<Longrightarrow>
             distinct (filter (\<lambda>a. a \<noteq> 0) (map alloc (ls[k := (ls ! k)\<lparr>alloc := 0\<rparr>])))" for ls k
  proof (induction ls arbitrary: k)
    case Nil
    then show ?case by simp
  next
    case (Cons l ls)
    have sub: "set (filter (\<lambda>a. a \<noteq> 0) (map alloc (ls[j := (ls ! j)\<lparr>alloc := 0\<rparr>])))
               \<subseteq> set (filter (\<lambda>a. a \<noteq> 0) (map alloc ls))" for j
      using set_update_subset_insert [of ls j "(ls ! j)\<lparr>alloc := 0\<rparr>"] by auto
    from Cons show ?case
      using sub by (cases k) (auto split: if_splits)
  qed
  from assms(2) have "large pool' = large pool
      \<or> large pool' = (large pool)[first_with (\<lambda>l. alloc l = p) (large pool) :=
                     (large pool ! first_with (\<lambda>l. alloc l = p) (large pool))\<lparr>alloc := 0\<rparr>]"
    by (auto simp: pfree_eq split: if_splits)
  with assms(1) upd show ?thesis by auto
qed

text \<open>
  C9. When the large list has a vacated node, \<^verbatim>\<open>ngx_pfree\<close> with the null pointer
  matches it: the null pointer is passed to \<^verbatim>\<open>ngx_free\<close>, the pool is unchanged (the
  \<^verbatim>\<open>alloc\<close> field of the node stays null), and the result is \<^verbatim>\<open>NGX_OK\<close>.
\<close>

theorem pfree_null_matches_vacated:
  assumes "\<exists>l\<in>set (large pool). alloc l = 0"
  shows "ngx_pfree pool 0 w = (NGX_OK, pool, ngx_free 0 w)"
proof -
  let ?i = "first_with (\<lambda>l. alloc l = 0) (large pool)"
  from assms have "alloc (large pool ! ?i) = 0"
    by (rule first_with_holds)
  then have "(large pool ! ?i)\<lparr>alloc := 0\<rparr> = large pool ! ?i" by simp
  moreover from assms have "0 \<in> alloc ` set (large pool)" by force
  ultimately show ?thesis by (simp add: pfree_eq)
qed

theorem pfree_null_matches_vacated_witness:
  "(\<exists>l\<in>set (large ex_pool). alloc l = 0)
   \<and> ngx_pfree ex_pool 0 ex_world = (NGX_OK, ex_pool, ex_world\<lparr>trace := [Ev_free 0]\<rparr>)"
proof -
  have h: "\<exists>l\<in>set (large ex_pool). alloc l = 0" by (simp add: ex_pool_def)
  from pfree_null_matches_vacated [OF h, of ex_world] h show ?thesis
    by (simp add: ngx_free_def ex_world_def)
qed

subsection \<open>Block growth\<close>

text \<open>
  C5, as amended. When \<^verbatim>\<open>ngx_palloc_block\<close> obtains a new block, every block from
  \<^verbatim>\<open>pool->current\<close> up to, but not including, the last block of the chain has its
  \<^verbatim>\<open>failed\<close> counter incremented; the counter of the last block is not changed. For
  each of the visited blocks whose counter exceeded 4 before the increment,
  \<^verbatim>\<open>pool->current\<close> is moved to the successor of that block. The new block is linked as
  the successor of the last block, and the address returned is the aligned address past
  the header of the new block.
\<close>

theorem palloc_block_walk:
  assumes "current pool < length (blocks pool)"
    and "script w = a # as" and "a \<noteq> 0"
    and "ngx_palloc_block L pool sz w = (m, pool', w')"
  shows "m = ngx_align_ptr (a + sz_data L) (NGX_ALIGNMENT L)
       \<and> blocks pool' =
           take (current pool) (blocks pool)
           @ map (\<lambda>p. p\<lparr>d_failed := d_failed p + 1\<rparr>) (butlast (drop (current pool) (blocks pool)))
           @ [last (blocks pool),
              \<lparr>b_addr = a, d_last = m + sz, d_end = a + psize_of pool, d_failed = 0\<rparr>]
       \<and> current pool' = walk_current (blocks pool) (current pool)"
  using assms
  by (auto simp: ngx_palloc_block_def memalign_eq failed_walk_eq walk_current_def psize_of_def
      Let_def)

theorem palloc_block_walk_witness:
  "current ex_pool < length (blocks ex_pool)
   \<and> script (ex_world\<lparr>script := [12288]\<rparr>) = [12288] \<and> (12288 :: addr) \<noteq> 0
   \<and> ngx_palloc_block lp64 ex_pool 8 (ex_world\<lparr>script := [12288]\<rparr>) =
       (12320,
        ex_pool\<lparr>blocks := [\<lparr>b_addr = 4096, d_last = 5120, d_end = 5120, d_failed = 5\<rparr>,
                \<lparr>b_addr = 8192, d_last = 8232, d_end = 9216, d_failed = 0\<rparr>,
                \<lparr>b_addr = 12288, d_last = 12328, d_end = 13312, d_failed = 0\<rparr>]\<rparr>,
        ex_world\<lparr>script := [], trace := [Ev_memalign 16 1024 12288]\<rparr>)
   \<and> walk_current (blocks ex_pool) (current ex_pool) = 0
   \<and> current (ex_pool\<lparr>blocks := [\<lparr>b_addr = 4096, d_last = 5120, d_end = 5120, d_failed = 5\<rparr>,
                \<lparr>b_addr = 8192, d_last = 8232, d_end = 9216, d_failed = 0\<rparr>,
                \<lparr>b_addr = 12288, d_last = 12328, d_end = 13312, d_failed = 0\<rparr>]\<rparr>)
       = walk_current (blocks ex_pool) (current ex_pool)"
proof -
  have h1: "current ex_pool < length (blocks ex_pool)" by (simp add: ex_pool_def)
  have h2: "script (ex_world\<lparr>script := [12288]\<rparr>) = [12288]" by simp
  have h3: "(12288 :: addr) \<noteq> 0" by simp
  have h4: "ngx_palloc_block lp64 ex_pool 8 (ex_world\<lparr>script := [12288]\<rparr>) =
       (12320,
        ex_pool\<lparr>blocks := [\<lparr>b_addr = 4096, d_last = 5120, d_end = 5120, d_failed = 5\<rparr>,
                \<lparr>b_addr = 8192, d_last = 8232, d_end = 9216, d_failed = 0\<rparr>,
                \<lparr>b_addr = 12288, d_last = 12328, d_end = 13312, d_failed = 0\<rparr>]\<rparr>,
        ex_world\<lparr>script := [], trace := [Ev_memalign 16 1024 12288]\<rparr>)"
    by (simp add: ngx_palloc_block_def ngx_memalign_def ex_pool_def ex_world_def lp64_def
        ngx_align_ptr_def Let_def)
  have wc: "walk_current (blocks ex_pool) (current ex_pool) = 0"
    by (simp add: walk_current_def ex_pool_def)
  from palloc_block_walk [OF h1 h2 h3 h4] h1 h2 h3 h4 wc show ?thesis
    by simp
qed

text \<open>
  The claim C5 as stated, that a block whose counter exceeds 4 after the increment is
  retired, fails on a block with four recorded failures: its counter becomes 5 and
  \<^verbatim>\<open>pool->current\<close> still points to it.
\<close>

theorem palloc_block_failed_five_not_retired:
  "d_failed (blocks (fst (snd (ngx_palloc_block lp64 ex_pool 8 (ex_world\<lparr>script := [12288]\<rparr>)))) ! 0) = 5
   \<and> current (fst (snd (ngx_palloc_block lp64 ex_pool 8 (ex_world\<lparr>script := [12288]\<rparr>)))) = 0"
  by (simp add: ngx_palloc_block_def ngx_memalign_def ex_pool_def ex_world_def lp64_def Let_def)

subsection \<open>The cleanup chain\<close>

text \<open>
  C10. \<^verbatim>\<open>ngx_pool_run_cleanup_file\<close> matches only cleanup nodes whose handler is
  \<^verbatim>\<open>ngx_pool_cleanup_file\<close>. A run that comes to its end leaves every node with another
  handler (the delete-file handler, a handler of the caller, or none) as it is, at its
  position, whatever descriptor the data of the node carries; a node that is changed had
  the close-file handler and the descriptor asked for, its handler is cleared, and the
  one callback invoked is the close-file handler on the data of that node; no other
  callback is invoked. A run that does not come to its end has met a node with the
  close-file handler and no data.
\<close>

theorem run_cleanup_file_matches_close_file_only:
  "(case ngx_pool_run_cleanup_file p fd w of
      Inl f \<Rightarrow> (\<exists>c\<in>set (cleanup p). null_file c)
    | Inr (p', w') \<Rightarrow>
        length (cleanup p') = length (cleanup p)
        \<and> (\<forall>i<length (cleanup p).
             (handler (cleanup p ! i) \<noteq> Some ngx_pool_cleanup_file \<longrightarrow>
                cleanup p' ! i = cleanup p ! i)
             \<and> (cleanup p' ! i \<noteq> cleanup p ! i \<longrightarrow>
                  file_match w fd (cleanup p ! i)
                  \<and> cleanup p' ! i = (cleanup p ! i)\<lparr>handler := None\<rparr>
                  \<and> new_events w w' = [Ev_call ngx_pool_cleanup_file (data (cleanup p ! i))]))
        \<and> (\<forall>e\<in>set (new_events w w'). \<exists>d. e = Ev_call ngx_pool_cleanup_file d))"
proof (cases "\<exists>c\<in>set (cleanup p). file_stop w fd c")
  case True
  let ?k = "first_with (file_stop w fd) (cleanup p)"
  from True have k: "?k < length (cleanup p)" by (rule first_with_less)
  from True have st: "file_stop w fd (cleanup p ! ?k)" by (rule first_with_holds)
  show ?thesis
  proof (cases "null_file (cleanup p ! ?k)")
    case nf: True
    from k have "cleanup p ! ?k \<in> set (cleanup p)" by simp
    with nf have "\<exists>c\<in>set (cleanup p). null_file c" by blast
    with True nf show ?thesis by (simp add: run_cleanup_file_eq)
  next
    case False
    with st have fm: "file_match w fd (cleanup p ! ?k)" by (simp add: file_stop_def)
    then have h: "handler (cleanup p ! ?k) = Some ngx_pool_cleanup_file"
      by (simp add: file_match_def)
    from True False have r: "ngx_pool_run_cleanup_file p fd w =
        Inr (p\<lparr>cleanup := (cleanup p)[?k := (cleanup p ! ?k)\<lparr>handler := None\<rparr>]\<rparr>,
             call_handler ngx_pool_cleanup_file (data (cleanup p ! ?k)) w)"
      by (simp add: run_cleanup_file_eq)
    have ne: "new_events w (call_handler ngx_pool_cleanup_file (data (cleanup p ! ?k)) w) =
        [Ev_call ngx_pool_cleanup_file (data (cleanup p ! ?k))]"
      by (simp add: call_handler_def)
    show ?thesis
      unfolding r using k fm h by (auto simp: ne nth_list_update)
  qed
next
  case False
  then show ?thesis by (simp add: run_cleanup_file_eq)
qed

theorem run_cleanup_file_matches_close_file_only_witness:
  "ngx_pool_run_cleanup_file file_pool 7 ex_world =
     Inr (file_pool\<lparr>cleanup :=
                [\<lparr>c_addr = 4352, handler = Some (user_handler 4198400), data = 4200\<rparr>,
                 \<lparr>c_addr = 4328, handler = Some ngx_pool_delete_file, data = 4200\<rparr>,
                 \<lparr>c_addr = 4288, handler = Some ngx_pool_cleanup_file, data = 4312\<rparr>,
                 \<lparr>c_addr = 4264, handler = None, data = 4200\<rparr>,
                 \<lparr>c_addr = 4240, handler = Some ngx_pool_cleanup_file, data = 4200\<rparr>]\<rparr>,
          ex_world\<lparr>trace := [Ev_call ngx_pool_cleanup_file 4200]\<rparr>)
   \<and> handler (cleanup file_pool ! 0) = Some (user_handler 4198400)
   \<and> fd_at ex_world (data (cleanup file_pool ! 0)) = 7
   \<and> handler (cleanup file_pool ! 1) = Some ngx_pool_delete_file
   \<and> fd_at ex_world (data (cleanup file_pool ! 1)) = 7
   \<and> file_match ex_world 7 (cleanup file_pool ! 3)
   \<and> new_events ex_world (ex_world\<lparr>trace := [Ev_call ngx_pool_cleanup_file 4200]\<rparr>) =
       [Ev_call ngx_pool_cleanup_file (data (cleanup file_pool ! 3))]"
proof -
  let ?P = "file_pool\<lparr>cleanup :=
                [\<lparr>c_addr = 4352, handler = Some (user_handler 4198400), data = 4200\<rparr>,
                 \<lparr>c_addr = 4328, handler = Some ngx_pool_delete_file, data = 4200\<rparr>,
                 \<lparr>c_addr = 4288, handler = Some ngx_pool_cleanup_file, data = 4312\<rparr>,
                 \<lparr>c_addr = 4264, handler = None, data = 4200\<rparr>,
                 \<lparr>c_addr = 4240, handler = Some ngx_pool_cleanup_file, data = 4200\<rparr>]\<rparr>"
  let ?W = "ex_world\<lparr>trace := [Ev_call ngx_pool_cleanup_file 4200]\<rparr>"
  have r: "ngx_pool_run_cleanup_file file_pool 7 ex_world = Inr (?P, ?W)"
    by (simp add: ngx_pool_run_cleanup_file_def file_pool_def ex_world_def call_handler_def)
  have h0: "handler (cleanup file_pool ! 0) = Some (user_handler 4198400)"
    and f0: "fd_at ex_world (data (cleanup file_pool ! 0)) = 7"
    and h1: "handler (cleanup file_pool ! 1) = Some ngx_pool_delete_file"
    and f1: "fd_at ex_world (data (cleanup file_pool ! 1)) = 7"
    by (simp_all add: file_pool_def ex_world_def)
  have i3: "3 < length (cleanup file_pool)" by (simp add: file_pool_def)
  have ch: "cleanup ?P ! 3 \<noteq> cleanup file_pool ! 3" by (simp add: file_pool_def)
  from run_cleanup_file_matches_close_file_only [where p = file_pool and fd = 7 and w = ex_world]
  have "\<forall>i<length (cleanup file_pool).
          cleanup ?P ! i \<noteq> cleanup file_pool ! i \<longrightarrow>
             file_match ex_world 7 (cleanup file_pool ! i)
             \<and> cleanup ?P ! i = (cleanup file_pool ! i)\<lparr>handler := None\<rparr>
             \<and> new_events ex_world ?W = [Ev_call ngx_pool_cleanup_file (data (cleanup file_pool ! i))]"
    unfolding r by simp
  with i3 ch have "file_match ex_world 7 (cleanup file_pool ! 3)
      \<and> new_events ex_world ?W = [Ev_call ngx_pool_cleanup_file (data (cleanup file_pool ! 3))]"
    by blast
  with r h0 f0 h1 f1 show ?thesis by simp
qed

text \<open>
  A node with the close-file handler that was registered with size 0 has no data; the
  run ends at it with a read through the null pointer.
\<close>

lemma run_cleanup_file_null_data:
  "ngx_pool_run_cleanup_file
     (fresh_pool\<lparr>cleanup := [\<lparr>c_addr = 4176, handler = Some ngx_pool_cleanup_file, data = 0\<rparr>]\<rparr>)
     7 ex_world = Inl Null_dereference"
  by (simp add: ngx_pool_run_cleanup_file_def)

subsection \<open>Small allocations\<close>

text \<open>
  For an alignment that is a power of two, \<open>ngx_align_ptr\<close> is the usual bit-mask
  formula \<^verbatim>\<open>(p + (a - 1)) & ~(a - 1)\<close> on 64-bit words, wrap-around included.
\<close>

lemma and_not_mask_word: "(x :: 64 word) AND NOT (mask k) = push_bit k (drop_bit k x)"
  by (rule bit_word_eqI) (auto simp: bit_simps)

lemma unat_round_down:
  "unat (push_bit k (drop_bit k (x :: 64 word))) = (unat x div 2 ^ k) * 2 ^ k"
proof -
  have "(unat x div 2 ^ k) * 2 ^ k \<le> unat x" by simp
  also have "unat x < 2 ^ LENGTH(64)" by (rule unsigned_less)
  finally have lt: "(unat x div 2 ^ k) * 2 ^ k < 2 ^ LENGTH(64)" .
  have "unat (push_bit k (drop_bit k x)) = take_bit LENGTH(64) (push_bit k (drop_bit k (unat x)))"
    by (simp only: unsigned_push_bit_eq unat_drop_bit_eq)
  also have "\<dots> = ((unat x div 2 ^ k) * 2 ^ k) mod 2 ^ LENGTH(64)"
    by (simp only: push_bit_eq_mult drop_bit_eq_div take_bit_eq_mod)
  also have "\<dots> = (unat x div 2 ^ k) * 2 ^ k"
    using lt by (rule mod_less)
  finally show ?thesis .
qed

lemma round_mod:
  "((N div 2 ^ k) * 2 ^ k) mod 2 ^ (k + j) = ((N mod 2 ^ (k + j)) div 2 ^ k) * (2 ^ k :: nat)"
proof -
  have "(N mod 2 ^ (k + j)) div 2 ^ k = (N div 2 ^ k) mod 2 ^ j"
    by (simp add: power_add mod_mult2_eq)
  then have "((N mod 2 ^ (k + j)) div 2 ^ k) * (2 ^ k :: nat) = ((N div 2 ^ k) mod 2 ^ j) * 2 ^ k"
    by simp
  also have "\<dots> = ((N div 2 ^ k) * 2 ^ k) mod (2 ^ j * 2 ^ k)"
    by (simp only: mult_mod_left)
  finally show ?thesis by (simp add: power_add mult.commute)
qed

lemma unat_two_power:
  assumes "k < 64"
  shows "unat (2 ^ k :: 64 word) = 2 ^ k"
proof -
  have "(2 ^ k :: 64 word) = word_of_nat (2 ^ k)" by simp
  then have "unat (2 ^ k :: 64 word) = 2 ^ k mod 2 ^ LENGTH(64)"
    by (simp only: unat_of_nat)
  moreover have "(2 :: nat) ^ k < 2 ^ LENGTH(64)"
    using assms by (intro power_strict_increasing) simp_all
  ultimately show ?thesis by simp
qed

lemma align_ptr_mask:
  assumes "k < 64"
  shows "ngx_align_ptr p (2 ^ k) = (p + (2 ^ k - 1)) AND NOT (2 ^ k - 1)"
proof -
  note a = unat_two_power [OF assms]
  have "(1 :: 64 word) \<le> 2 ^ k" using a by (simp add: word_le_nat_alt)
  then have m: "unat (2 ^ k - 1 :: 64 word) = 2 ^ k - 1"
    using a by (simp add: unat_sub)
  from assms have "\<exists>j. LENGTH(64) = k + j" by (intro exI [of _ "64 - k"]) simp
  then obtain j where j: "LENGTH(64) = k + j" ..
  have "unat ((p + (2 ^ k - 1)) AND NOT (2 ^ k - 1)) = (unat (p + (2 ^ k - 1)) div 2 ^ k) * 2 ^ k"
    by (simp only: and_not_mask_word unat_round_down flip: mask_eq_exp_minus_1)
  also have "unat (p + (2 ^ k - 1)) = (unat p + (2 ^ k - 1)) mod 2 ^ (k + j)"
    by (simp only: unat_word_ariths m j)
  also have "(((unat p + (2 ^ k - 1)) mod 2 ^ (k + j)) div 2 ^ k) * 2 ^ k
      = (((unat p + (2 ^ k - 1)) div 2 ^ k) * 2 ^ k) mod 2 ^ (k + j)"
    by (simp only: round_mod)
  also have "\<dots> = unat (ngx_align_ptr p (2 ^ k))"
    unfolding ngx_align_ptr_def a by (simp only: unat_of_nat j)
  finally show ?thesis by (simp only: word_unat_eq_iff)
qed

text \<open>Rounding up, and the alignment of a pointer when nothing overflows.\<close>

lemma roundup_ge: "0 < a \<Longrightarrow> x \<le> roundup x a"
proof -
  assume a: "0 < a"
  have "x + (a - 1) < ((x + (a - 1)) div a) * a + a"
    using a by (metis add.commute dividend_less_div_times mult.commute)
  with a show ?thesis unfolding roundup_def by linarith
qed

lemma roundup_le: "roundup x a \<le> x + (a - 1)"
  unfolding roundup_def by simp

lemma roundup_dvd: "a dvd roundup x a"
  unfolding roundup_def by simp

lemma roundup_below: "0 < a \<Longrightarrow> a dvd e \<Longrightarrow> x \<le> e \<Longrightarrow> roundup x a \<le> e"
proof -
  assume a: "0 < a" and d: "a dvd e" and x: "x \<le> e"
  from d obtain k where e: "e = a * k" ..
  have "x + (a - 1) < a * k + a" using x e a by linarith
  then have "x + (a - 1) < a * Suc k" by simp
  then have "(x + (a - 1)) div a < Suc k"
    using a by (simp add: div_less_iff_less_mult mult.commute del: mult_Suc_right)
  then have "(x + (a - 1)) div a \<le> k" by simp
  then have "((x + (a - 1)) div a) * a \<le> k * a" by (rule mult_le_mono1)
  with e show ?thesis by (simp add: roundup_def mult.commute)
qed

lemma align_unat:
  assumes "roundup (unat p) (unat a) < 2 ^ 64"
  shows "unat (ngx_align_ptr p a) = roundup (unat p) (unat a)"
proof -
  have "unat (ngx_align_ptr p a) = roundup (unat p) (unat a) mod 2 ^ LENGTH(64)"
    unfolding ngx_align_ptr_def roundup_def by (rule unat_of_nat)
  with assms show ?thesis by simp
qed

text \<open>
  One round of the loop of \<^verbatim>\<open>ngx_palloc_small\<close> on a well-formed block: the candidate
  address is between the cursor and the end of the block, and when the test succeeds the
  range fits before the end.
\<close>

lemma small_step:
  assumes ok: "block_ok L P (geom p)" and A: "0 < unat (NGX_ALIGNMENT L)"
    and dP: "unat (NGX_ALIGNMENT L) dvd P"
    and m: "m = (if al then ngx_align_ptr (d_last p) (NGX_ALIGNMENT L) else d_last p)"
  shows "unat (d_last p) \<le> unat m \<and> unat m \<le> unat (d_end p)
       \<and> (al \<longrightarrow> unat (NGX_ALIGNMENT L) dvd unat m)
       \<and> (n \<le> d_end p - m \<longrightarrow> unat (m + n) = unat m + unat n \<and> unat m + unat n \<le> unat (d_end p))"
proof -
  let ?A = "unat (NGX_ALIGNMENT L)"
  from ok have e: "unat (b_addr p) + P = unat (d_end p)" and db: "?A dvd unat (b_addr p)"
    and le: "unat (d_last p) \<le> unat (d_end p)"
    by (simp_all add: block_ok_def geom_def)
  from e db dP have de: "?A dvd unat (d_end p)" by (metis dvd_add)
  have lt: "unat (d_end p) < 2 ^ 64" using unsigned_less [of "d_end p"] by simp
  have r: "roundup (unat (d_last p)) ?A \<le> unat (d_end p)"
    using A de le by (rule roundup_below)
  then have u: "unat (ngx_align_ptr (d_last p) (NGX_ALIGNMENT L)) = roundup (unat (d_last p)) ?A"
    using lt by (intro align_unat) simp
  have 1: "unat (d_last p) \<le> unat m" using m u roundup_ge [OF A] by simp
  have 2: "unat m \<le> unat (d_end p)" using m u r le by simp
  have 3: "al \<longrightarrow> ?A dvd unat m" using m u roundup_dvd by simp
  have 4: "n \<le> d_end p - m \<longrightarrow> unat (m + n) = unat m + unat n \<and> unat m + unat n \<le> unat (d_end p)"
  proof
    assume n: "n \<le> d_end p - m"
    from 2 have "m \<le> d_end p" by (simp add: word_le_nat_alt)
    then have "unat (d_end p - m) = unat (d_end p) - unat m" by (rule unat_sub)
    with n have "unat n \<le> unat (d_end p) - unat m" by (simp add: word_le_nat_alt)
    with 2 have s: "unat m + unat n \<le> unat (d_end p)" by simp
    with lt have "unat m + unat n < 2 ^ LENGTH(64)" by simp
    then have "unat (m + n) = unat m + unat n" by (simp only: unat_add_lem)
    with s show "unat (m + n) = unat m + unat n \<and> unat m + unat n \<le> unat (d_end p)" by simp
  qed
  from 1 2 3 4 show ?thesis by blast
qed

lemma small_loop_found:
  assumes "small_loop L ps n al = Some (m, ps')"
    and "\<forall>g\<in>set (map geom ps). block_ok L P g"
    and "0 < unat (NGX_ALIGNMENT L)" and "unat (NGX_ALIGNMENT L) dvd P"
  shows "\<exists>k<length ps. ps' = ps[k := (ps ! k)\<lparr>d_last := m + n\<rparr>]
           \<and> unat (d_last (ps ! k)) \<le> unat m
           \<and> unat (m + n) = unat m + unat n
           \<and> unat m + unat n \<le> unat (d_end (ps ! k))
           \<and> (al \<longrightarrow> unat (NGX_ALIGNMENT L) dvd unat m)"
  using assms(1,2)
proof (induction ps arbitrary: ps')
  case Nil
  then show ?case by simp
next
  case (Cons p ps)
  let ?m = "if al then ngx_align_ptr (d_last p) (NGX_ALIGNMENT L) else d_last p"
  from Cons.prems(2) have ok: "block_ok L P (geom p)" by simp
  note st = small_step [OF ok assms(3,4) refl, of al n]
  show ?case
  proof (cases "n \<le> d_end p - ?m")
    case True
    with Cons.prems(1) have "m = ?m" and "ps' = p\<lparr>d_last := ?m + n\<rparr> # ps"
      by (auto simp: Let_def)
    with st True have "ps' = (p # ps)[0 := ((p # ps) ! 0)\<lparr>d_last := m + n\<rparr>]
           \<and> unat (d_last ((p # ps) ! 0)) \<le> unat m
           \<and> unat (m + n) = unat m + unat n
           \<and> unat m + unat n \<le> unat (d_end ((p # ps) ! 0))
           \<and> (al \<longrightarrow> unat (NGX_ALIGNMENT L) dvd unat m)"
      by simp
    then show ?thesis by (intro exI [of _ 0]) simp
  next
    case False
    with Cons.prems(1) obtain qs where q: "small_loop L ps n al = Some (m, qs)" and p': "ps' = p # qs"
      by (auto simp: Let_def split: option.splits)
    from Cons.prems(2) have "\<forall>g\<in>set (map geom ps). block_ok L P g" by simp
    from Cons.IH [OF q this] obtain k where k: "k < length ps"
      "qs = ps[k := (ps ! k)\<lparr>d_last := m + n\<rparr>]"
      "unat (d_last (ps ! k)) \<le> unat m" "unat (m + n) = unat m + unat n"
      "unat m + unat n \<le> unat (d_end (ps ! k))" "al \<longrightarrow> unat (NGX_ALIGNMENT L) dvd unat m"
      by blast
    with p' show ?thesis by (intro exI [of _ "Suc k"]) simp
  qed
qed

text \<open>Facts about the extents of blocks and the bytes still to be given out.\<close>

lemma psize_geom:
  "psize_of pool = (case map geom (blocks pool) of [] \<Rightarrow> 0 | (b, l, e) # _ \<Rightarrow> e - b)"
  by (simp add: psize_of_def geom_def split: list.splits)

lemma geom_nth: "i < length ps \<Longrightarrow> map geom ps ! i = (b_addr (ps ! i), d_last (ps ! i), d_end (ps ! i))"
  by (simp add: geom_def)

lemma bex_nth: "(\<exists>g\<in>set G. Q g) \<longleftrightarrow> (\<exists>i<length G. Q (G ! i))"
  by (metis in_set_conv_nth)

lemma free_set_iff:
  "x \<in> free_set pool w \<longleftrightarrow>
     (\<exists>i<length (blocks pool). unat (fst (snd (map geom (blocks pool) ! i))) \<le> x
                             \<and> x < unat (snd (snd (map geom (blocks pool) ! i))))
     \<or> (\<exists>a\<in>set (script w). a \<noteq> 0 \<and> unat a \<le> x \<and> x < unat a + unat (psize_of pool))"
proof -
  have "(\<exists>g\<in>set (map geom (blocks pool)). unat (fst (snd g)) \<le> x \<and> x < unat (snd (snd g)))
     \<longleftrightarrow> (\<exists>i<length (blocks pool). unat (fst (snd (map geom (blocks pool) ! i))) \<le> x
                             \<and> x < unat (snd (snd (map geom (blocks pool) ! i))))"
    by (simp only: bex_nth length_map)
  moreover have "x \<in> free_set pool w \<longleftrightarrow>
     (\<exists>g\<in>set (map geom (blocks pool)). unat (fst (snd g)) \<le> x \<and> x < unat (snd (snd g)))
     \<or> (\<exists>a\<in>set (script w). a \<noteq> 0 \<and> unat a \<le> x \<and> x < unat a + unat (psize_of pool))"
    unfolding free_set_def by (auto simp: case_prod_beta)
  ultimately show ?thesis by simp
qed

lemma separate_sym: "separate r r' \<Longrightarrow> separate r' r"
  by (auto simp: separate_def)

lemma separate_blocks:
  assumes "regions_ok pool w" and "i < length (blocks pool)" and "j < length (blocks pool)" and "i \<noteq> j"
  shows "separate (unat (fst (map geom (blocks pool) ! i)), unat (snd (snd (map geom (blocks pool) ! i))))
                  (unat (fst (map geom (blocks pool) ! j)), unat (snd (snd (map geom (blocks pool) ! j))))"
proof -
  let ?R = "map (\<lambda>(b, l, e). (unat b, unat e)) (map geom (blocks pool))"
  from assms(1) have s: "sorted_wrt separate ?R"
    by (simp add: regions_ok_def regions_def sorted_wrt_append)
  have n: "\<And>k. k < length (blocks pool) \<Longrightarrow>
     ?R ! k = (unat (fst (map geom (blocks pool) ! k)), unat (snd (snd (map geom (blocks pool) ! k))))"
    by (simp add: case_prod_beta)
  have "separate (?R ! i) (?R ! j)"
  proof (cases "i < j")
    case True
    with s assms(3) show ?thesis by (simp add: sorted_wrt_iff_nth_less)
  next
    case False
    with assms(4) have "j < i" by simp
    with s assms(2) have "separate (?R ! j) (?R ! i)" by (simp add: sorted_wrt_iff_nth_less)
    then show ?thesis by (rule separate_sym)
  qed
  with n [OF assms(2)] n [OF assms(3)] show ?thesis by simp
qed

lemma separate_block_script:
  assumes "regions_ok pool w" and "i < length (blocks pool)" and "a \<in> set (script w)" and "a \<noteq> 0"
  shows "separate (unat (fst (map geom (blocks pool) ! i)), unat (snd (snd (map geom (blocks pool) ! i))))
                  (unat a, unat a + unat (psize_of pool))"
proof -
  let ?R = "map (\<lambda>(b, l, e). (unat b, unat e)) (map geom (blocks pool))"
  let ?S = "map (\<lambda>a. (unat a, unat a + unat (psize_of pool))) (filter (\<lambda>a. a \<noteq> 0) (script w))"
  from assms(1) have s: "\<forall>x\<in>set ?R. \<forall>y\<in>set ?S. separate x y"
    by (simp add: regions_ok_def regions_def sorted_wrt_append)
  have 1: "?R ! i \<in> set ?R" using assms(2) by (intro nth_mem) simp
  have 2: "?R ! i = (unat (fst (map geom (blocks pool) ! i)), unat (snd (snd (map geom (blocks pool) ! i))))"
    using assms(2) by (simp add: case_prod_beta)
  have 3: "(unat a, unat a + unat (psize_of pool)) \<in> set ?S"
    using assms(3,4) by auto
  from s 1 3 have "separate (?R ! i) (unat a, unat a + unat (psize_of pool))" by blast
  then show ?thesis by (simp only: 2)
qed

lemma separate_script:
  assumes "regions_ok pool w" and "script w = a # as" and "a \<noteq> 0" and "a' \<in> set as" and "a' \<noteq> 0"
  shows "separate (unat a, unat a + unat (psize_of pool)) (unat a', unat a' + unat (psize_of pool))"
proof -
  let ?S = "map (\<lambda>a. (unat a, unat a + unat (psize_of pool))) (filter (\<lambda>a. a \<noteq> 0) (script w))"
  from assms(1) have "sorted_wrt separate ?S"
    by (simp add: regions_ok_def regions_def sorted_wrt_append)
  with assms(2,3) have "\<forall>y\<in>set (map (\<lambda>a. (unat a, unat a + unat (psize_of pool))) (filter (\<lambda>a. a \<noteq> 0) as)).
      separate (unat a, unat a + unat (psize_of pool)) y"
    by simp
  moreover have "(unat a', unat a' + unat (psize_of pool)) \<in>
      set (map (\<lambda>a. (unat a, unat a + unat (psize_of pool))) (filter (\<lambda>a. a \<noteq> 0) as))"
    using assms(4,5) by auto
  ultimately show ?thesis by blast
qed

lemma walk_fold_less:
  "c < n \<Longrightarrow> (\<And>k. k \<in> set ks \<Longrightarrow> Suc k < n) \<Longrightarrow>
   foldl (\<lambda>c k. if 4 < d_failed (ps ! k) then Suc k else c) c ks < n"
  by (induction ks arbitrary: c) auto

lemma walk_current_less:
  assumes "cur < length ps"
  shows "walk_current ps cur < length ps"
  unfolding walk_current_def using assms by (intro walk_fold_less) auto

lemma data_regions_nth:
  assumes "pool_ok L pool" and "j < length (blocks pool)"
    and "map geom (blocks pool) ! j = (b, l, e)"
  shows "\<exists>lo. (lo, unat e) \<in> set (data_regions L pool) \<and> lo \<le> unat l"
proof (cases "blocks pool")
  case Nil
  with assms(2) show ?thesis by simp
next
  case (Cons r ps)
  show ?thesis
  proof (cases j)
    case 0
    with Cons assms(1,3) have "unat b + unat (sz_pool L) \<le> unat l"
      by (auto simp: pool_ok_def)
    moreover from 0 Cons assms(3) have "(unat b + unat (sz_pool L), unat e) \<in> set (data_regions L pool)"
      by (auto simp: data_regions_def)
    ultimately show ?thesis by blast
  next
    case (Suc k)
    with Cons assms(2,3) have g: "geom (ps ! k) = (b, l, e)" and k: "k < length ps" by auto
    from k have "ps ! k \<in> set ps" by simp
    then have "geom (ps ! k) \<in> set (map geom (blocks pool))"
      using Cons by simp
    with assms(1) have "block_ok L (unat (psize_of pool)) (geom (ps ! k))"
      unfolding pool_ok_def by blast
    with g have "unat b + unat (sz_data L) \<le> unat l" by (simp add: block_ok_def)
    moreover have "(unat b + unat (sz_data L), unat e) \<in> set (data_regions L pool)"
    proof -
      obtain rb rl re where r: "geom r = (rb, rl, re)" by (cases "geom r")
      have d: "data_regions L pool = (unat rb + unat (sz_pool L), unat re)
                 # map (\<lambda>x. case geom x of (b, l, e) \<Rightarrow> (unat b + unat (sz_data L), unat e)) ps"
        using Cons r by (simp add: data_regions_def)
      have "(case geom (ps ! k) of (b, l, e) \<Rightarrow> (unat b + unat (sz_data L), unat e))
            \<in> set (map (\<lambda>x. case geom x of (b, l, e) \<Rightarrow> (unat b + unat (sz_data L), unat e)) ps)"
        using \<open>ps ! k \<in> set ps\<close> by (auto intro!: image_eqI [where x = "ps ! k"])
      with g d show ?thesis by simp
    qed
    ultimately show ?thesis by blast
  qed
qed

lemma upd_same_extent:
  assumes "j < length G" and "G ! j = (b, l, e)"
  shows "map (\<lambda>(b, l, e). f b e) (G[j := (b, l', e)]) = map (\<lambda>(b, l, e). f b e) G"
proof -
  have "map (\<lambda>(b, l, e). f b e) (G[j := (b, l', e)]) = (map (\<lambda>(b, l, e). f b e) G)[j := f b e]"
    by (simp add: map_update)
  also have "f b e = map (\<lambda>(b, l, e). f b e) G ! j" using assms by simp
  finally show ?thesis by (simp only: list_update_id)
qed

lemma block_ok_nth:
  assumes "pool_ok L pool" and "i < length (blocks pool)"
  shows "block_ok L (unat (psize_of pool)) (map geom (blocks pool) ! i)"
proof -
  from assms(2) have "map geom (blocks pool) ! i \<in> set (map geom (blocks pool))"
    by (intro nth_mem) simp
  with assms(1) show ?thesis unfolding pool_ok_def by blast
qed

text \<open>An allocation that moves the cursor of a block of the chain.\<close>

lemma step_in_block_geom:
  assumes ok: "pool_ok L pool"
    and j: "j < length (blocks pool)" and gj: "map geom (blocks pool) ! j = (b, l, e)"
    and G': "map geom (blocks pool') = (map geom (blocks pool))[j := (b, l', e)]"
  shows "psize_of pool' = psize_of pool"
    and "map (\<lambda>(b, l, e). (unat b, unat e)) (map geom (blocks pool'))
         = map (\<lambda>(b, l, e). (unat b, unat e)) (map geom (blocks pool))"
    and "data_regions L pool' = data_regions L pool"
proof -
  from j obtain g gs where G: "map geom (blocks pool) = g # gs"
    by (cases "map geom (blocks pool)") auto
  show "psize_of pool' = psize_of pool"
    using G G' gj by (cases j) (simp_all add: psize_geom)
  from j have j': "j < length (map geom (blocks pool))" by simp
  show "map (\<lambda>(b, l, e). (unat b, unat e)) (map geom (blocks pool'))
         = map (\<lambda>(b, l, e). (unat b, unat e)) (map geom (blocks pool))"
    unfolding G' using j' gj by (rule upd_same_extent)
  show "data_regions L pool' = data_regions L pool"
  proof (cases j)
    case 0
    with G G' gj show ?thesis by (simp add: data_regions_def)
  next
    case (Suc k)
    with G gj j' have k: "k < length gs" "gs ! k = (b, l, e)" by simp_all
    from Suc G G' have "map geom (blocks pool') = g # gs[k := (b, l', e)]" by simp
    with G upd_same_extent [OF k, of "\<lambda>b e. (unat b + unat (sz_data L), unat e)" l']
    show ?thesis by (simp add: data_regions_def)
  qed
qed

lemma step_in_block_ok:
  assumes I: "sys_ok L pool w"
    and j: "j < length (blocks pool)" and gj: "map geom (blocks pool) ! j = (b, l, e)"
    and G': "map geom (blocks pool') = (map geom (blocks pool))[j := (b, l', e)]"
    and same: "pool_max pool' = pool_max pool" "current pool' = current pool"
    and le: "unat l \<le> unat l'" "unat l' \<le> unat e"
  shows "sys_ok L pool' w"
proof -
  from I have ok: "pool_ok L pool" and L: "layout_ok L" and al: "alloc_ok L pool w"
    and ro: "regions_ok pool w" by (simp_all add: sys_ok_def)
  note g = step_in_block_geom [OF ok j gj G']
  let ?P = "unat (psize_of pool)"
  let ?G = "map geom (blocks pool)"
  from j have j': "j < length ?G" by simp
  then have "?G ! j \<in> set ?G" by (rule nth_mem)
  with ok gj have bj: "block_ok L ?P (b, l, e)" unfolding pool_ok_def by metis
  with le have bj': "block_ok L ?P (b, l', e)" by (auto simp: block_ok_def)
  have len: "length (blocks pool') = length (blocks pool)"
    using arg_cong [OF G', of length] by simp
  have all: "\<forall>g\<in>set (map geom (blocks pool')). block_ok L ?P g"
  proof
    fix x assume "x \<in> set (map geom (blocks pool'))"
    then have "x \<in> insert (b, l', e) (set ?G)"
      unfolding G' using set_update_subset_insert by fastforce
    with bj' ok show "block_ok L ?P x" unfolding pool_ok_def by blast
  qed
  have hd: "case hd (map geom (blocks pool')) of (b, l, e) \<Rightarrow> unat b + unat (sz_pool L) \<le> unat l"
  proof (cases j)
    case 0
    from j obtain g gs where G: "?G = g # gs" by (cases ?G) auto
    with 0 gj ok have "unat b + unat (sz_pool L) \<le> unat l" by (auto simp: pool_ok_def)
    with le 0 G show ?thesis by (simp add: G')
  next
    case (Suc k)
    from j obtain g gs where G: "?G = g # gs" by (cases ?G) auto
    with Suc have "hd (map geom (blocks pool')) = hd ?G" by (simp add: G')
    with ok show ?thesis by (simp add: pool_ok_def)
  qed
  have ne: "blocks pool' \<noteq> []" using len j by auto
  have "pool_ok L pool'"
    unfolding pool_ok_def using ok len same all hd j ne
    by (simp add: g(1) pool_ok_def)
  moreover have "alloc_ok L pool' w" using al by (simp add: alloc_ok_def g(1))
  moreover have "regions_ok pool' w" using ro unfolding regions_ok_def regions_def g(1) g(2) .
  ultimately show ?thesis using L by (simp add: sys_ok_def)
qed

lemma step_in_block_free:
  assumes I: "sys_ok L pool w"
    and j: "j < length (blocks pool)" and gj: "map geom (blocks pool) ! j = (b, l, e)"
    and G': "map geom (blocks pool') = (map geom (blocks pool))[j := (b, m + n, e)]"
    and le: "unat l \<le> unat m" "unat (m + n) = unat m + unat n" "unat m + unat n \<le> unat e"
  shows "free_set pool' w \<subseteq> free_set pool w"
    and "rng m n \<subseteq> free_set pool w"
    and "rng m n \<inter> free_set pool' w = {}"
    and "in_data_region L pool' m n"
proof -
  from I have ok: "pool_ok L pool" and ro: "regions_ok pool w" by (simp_all add: sys_ok_def)
  note g = step_in_block_geom [OF ok j gj G']
  let ?G = "map geom (blocks pool)"
  let ?G' = "map geom (blocks pool')"
  have len: "length (blocks pool') = length (blocks pool)"
    using arg_cong [OF G', of length] by simp
  have nj: "?G' ! j = (b, m + n, e)" using j by (simp add: G')
  have ni: "\<And>i. i \<noteq> j \<Longrightarrow> ?G' ! i = ?G ! i" by (simp add: G')
  from block_ok_nth [OF ok j] gj have bl: "unat b \<le> unat l"
    by (simp add: block_ok_def)
  show "free_set pool' w \<subseteq> free_set pool w"
  proof
    fix x assume "x \<in> free_set pool' w"
    then consider i where "i < length (blocks pool)" "unat (fst (snd (?G' ! i))) \<le> x"
        "x < unat (snd (snd (?G' ! i)))"
      | a where "a \<in> set (script w)" "a \<noteq> 0" "unat a \<le> x" "x < unat a + unat (psize_of pool)"
      unfolding free_set_iff len g(1) by blast
    then show "x \<in> free_set pool w"
    proof cases
      case 1
      show ?thesis
      proof (cases "i = j")
        case True
        with 1 nj le have "unat l \<le> x" "x < unat e" by simp_all
        with gj j show ?thesis unfolding free_set_iff by (intro disjI1 exI [of _ j]) simp
      next
        case False
        with 1 ni show ?thesis unfolding free_set_iff by (intro disjI1 exI [of _ i]) simp
      qed
    next
      case 2
      then show ?thesis unfolding free_set_iff by blast
    qed
  qed
  show "rng m n \<subseteq> free_set pool w"
  proof
    fix x assume "x \<in> rng m n"
    with le have "unat l \<le> x" "x < unat e" by (simp_all add: rng_def)
    with gj j show "x \<in> free_set pool w"
      unfolding free_set_iff by (intro disjI1 exI [of _ j]) simp
  qed
  show "rng m n \<inter> free_set pool' w = {}"
  proof (rule ccontr)
    assume "rng m n \<inter> free_set pool' w \<noteq> {}"
    then obtain x where xr: "x \<in> rng m n" and xf: "x \<in> free_set pool' w" by blast
    from xr le bl have xb: "unat b \<le> x" "x < unat e" and xm: "x < unat (m + n)"
      by (simp_all add: rng_def)
    from xf consider i where "i < length (blocks pool)" "unat (fst (snd (?G' ! i))) \<le> x"
        "x < unat (snd (snd (?G' ! i)))"
      | a where "a \<in> set (script w)" "a \<noteq> 0" "unat a \<le> x" "x < unat a + unat (psize_of pool)"
      unfolding free_set_iff len g(1) by blast
    then show False
    proof cases
      case 1
      show False
      proof (cases "i = j")
        case True
        with 1 nj xm show False by simp
      next
        case False
        obtain bi li ei where gi: "?G ! i = (bi, li, ei)" by (cases "?G ! i")
        from block_ok_nth [OF ok 1(1)] gi have "unat bi \<le> unat li" by (simp add: block_ok_def)
        with 1 ni [OF False] gi have xi: "unat bi \<le> x" "x < unat ei" by simp_all
        from separate_blocks [OF ro 1(1) j False] gi gj
        have "separate (unat bi, unat ei) (unat b, unat e)" by simp
        with xi xb show False by (simp add: separate_def)
      qed
    next
      case 2
      from separate_block_script [OF ro j 2(1,2)] gj
      have "separate (unat b, unat e) (unat a, unat a + unat (psize_of pool))" by simp
      with 2 xb show False by (simp add: separate_def)
    qed
  qed
  from data_regions_nth [OF ok j gj] obtain lo where
    "(lo, unat e) \<in> set (data_regions L pool)" "lo \<le> unat l" by blast
  with le show "in_data_region L pool' m n"
    unfolding in_data_region_def g(3) by (intro bexI [of _ "(lo, unat e)"]) simp_all
qed

text \<open>An allocation that is carved out of a new block.\<close>

lemma new_block_arith:
  assumes L: "layout_ok L"
    and a: "unat a + unat psize < 2 ^ 64"
    and mx: "unat (sz_pool L) + unat mx \<le> unat psize"
    and n: "n \<le> mx"
    and m: "m = ngx_align_ptr (a + sz_data L) (NGX_ALIGNMENT L)"
  shows "unat (a + psize) = unat a + unat psize"
    and "unat a + unat (sz_data L) \<le> unat m"
    and "unat (NGX_ALIGNMENT L) dvd unat m"
    and "unat (m + n) = unat m + unat n"
    and "unat m + unat n \<le> unat a + unat psize"
proof -
  let ?A = "unat (NGX_ALIGNMENT L)"
  from L have A: "0 < ?A" and dp: "unat (sz_data L) + (?A - 1) \<le> unat (sz_pool L)"
    unfolding layout_ok_def by blast+
  from a show 1: "unat (a + psize) = unat a + unat psize"
    by (simp add: unat_add_lem [symmetric])
  from a dp mx have "unat a + unat (sz_data L) < 2 ^ LENGTH(64)" by simp
  then have 2: "unat (a + sz_data L) = unat a + unat (sz_data L)"
    by (simp only: unat_add_lem)
  have r: "roundup (unat (a + sz_data L)) ?A \<le> unat a + unat (sz_pool L)"
    using roundup_le [of "unat (a + sz_data L)" ?A] dp 2 by simp
  with a mx have "roundup (unat (a + sz_data L)) ?A < 2 ^ 64" by simp
  then have u: "unat m = roundup (unat (a + sz_data L)) ?A"
    unfolding m by (rule align_unat)
  show "unat a + unat (sz_data L) \<le> unat m"
    using u roundup_ge [OF A, of "unat (a + sz_data L)"] 2 by simp
  show "?A dvd unat m" using u roundup_dvd by simp
  from n have "unat n \<le> unat mx" by (simp add: word_le_nat_alt)
  with u r mx show 5: "unat m + unat n \<le> unat a + unat psize" by simp
  with a have "unat m + unat n < 2 ^ LENGTH(64)" by simp
  then show "unat (m + n) = unat m + unat n" by (simp only: unat_add_lem)
qed

lemma step_new_block:
  assumes I: "sys_ok L pool w" and sc: "script w = a # as" and a0: "a \<noteq> 0"
    and G': "map geom (blocks pool') = map geom (blocks pool) @ [(a, m + n, a + psize_of pool)]"
    and same: "pool_max pool' = pool_max pool" "current pool' < length (blocks pool)"
    and sc': "script w' = as"
    and m: "m = ngx_align_ptr (a + sz_data L) (NGX_ALIGNMENT L)" and n: "n \<le> pool_max pool"
  shows "sys_ok L pool' w'"
    and "set (data_regions L pool) \<subseteq> set (data_regions L pool')"
    and "free_set pool' w' \<subseteq> free_set pool w"
    and "rng m n \<subseteq> free_set pool w"
    and "rng m n \<inter> free_set pool' w' = {}"
    and "in_data_region L pool' m n"
    and "unat (NGX_ALIGNMENT L) dvd unat m"
proof -
  from I have ok: "pool_ok L pool" and L: "layout_ok L" and al: "alloc_ok L pool w"
    and ro: "regions_ok pool w" by (simp_all add: sys_ok_def)
  let ?P = "unat (psize_of pool)"
  let ?G = "map geom (blocks pool)"
  let ?G' = "map geom (blocks pool')"
  let ?A = "unat (NGX_ALIGNMENT L)"
  from al sc a0 have aa: "unat (NGX_POOL_ALIGNMENT L) dvd unat a" "unat a + ?P < 2 ^ 64"
    by (simp_all add: alloc_ok_def)
  from ok have mx: "unat (sz_pool L) + unat (pool_max pool) \<le> ?P" and ne: "blocks pool \<noteq> []"
    by (simp_all add: pool_ok_def)
  note ar = new_block_arith [OF L aa(2) mx n m]
  from L aa(1) have da: "?A dvd unat a" by (auto simp: layout_ok_def elim: dvd_trans)
  from ne obtain g gs where G: "?G = g # gs" by (cases ?G) auto
  have ps: "psize_of pool' = psize_of pool"
    by (simp add: psize_geom [of pool'] psize_geom [of pool] G' G)
  have len: "length (blocks pool') = Suc (length (blocks pool))"
    using arg_cong [OF G', of length] by simp
  have nl: "?G' ! length (blocks pool) = (a, m + n, a + psize_of pool)"
    by (simp add: G' nth_append)
  have ni: "\<And>i. i < length (blocks pool) \<Longrightarrow> ?G' ! i = ?G ! i"
    by (simp add: G' nth_append)
  have bn: "block_ok L ?P (a, m + n, a + psize_of pool)"
    using ar da by (simp add: block_ok_def)
  have pk: "pool_ok L pool'"
  proof -
    have "blocks pool' \<noteq> []" using len by auto
    moreover have "current pool' < length (blocks pool')" using same(2) len by simp
    moreover have "\<forall>g\<in>set ?G'. block_ok L (unat (psize_of pool')) g"
      using ok bn unfolding ps G' pool_ok_def by auto
    moreover have "hd ?G' = hd ?G" by (simp add: G' G)
    ultimately show ?thesis using ok by (simp add: pool_ok_def ps same(1))
  qed
  have ak: "alloc_ok L pool' w'"
    using al sc by (simp add: alloc_ok_def sc' ps)
  have rg: "regions pool' w' = regions pool w"
    unfolding regions_def G' sc sc' ps using a0 ar(1) by simp
  from ro rg have rk: "regions_ok pool' w'" by (simp add: regions_ok_def)
  from L pk ak rk show "sys_ok L pool' w'" by (simp add: sys_ok_def)
  obtain gb gl ge where g: "g = (gb, gl, ge)" by (cases g)
  have dr: "data_regions L pool' = data_regions L pool @ [(unat a + unat (sz_data L), unat a + ?P)]"
    unfolding data_regions_def G' G g by (simp add: ar(1))
  then show "set (data_regions L pool) \<subseteq> set (data_regions L pool')" by auto
  show "free_set pool' w' \<subseteq> free_set pool w"
  proof
    fix x assume "x \<in> free_set pool' w'"
    then consider i where "i < Suc (length (blocks pool))" "unat (fst (snd (?G' ! i))) \<le> x"
        "x < unat (snd (snd (?G' ! i)))"
      | a' where "a' \<in> set as" "a' \<noteq> 0" "unat a' \<le> x" "x < unat a' + ?P"
      unfolding free_set_iff len ps sc' by blast
    then show "x \<in> free_set pool w"
    proof cases
      case 1
      show ?thesis
      proof (cases "i = length (blocks pool)")
        case True
        with 1 nl ar have "unat a \<le> x" "x < unat a + ?P" by simp_all
        with a0 sc show ?thesis unfolding free_set_iff by (intro disjI2 bexI [of _ a]) simp_all
      next
        case False
        with 1 have i: "i < length (blocks pool)" by simp
        with 1 ni show ?thesis unfolding free_set_iff by (intro disjI1 exI [of _ i]) simp
      qed
    next
      case 2
      with sc show ?thesis unfolding free_set_iff by (intro disjI2 bexI [of _ a']) simp_all
    qed
  qed
  show "rng m n \<subseteq> free_set pool w"
  proof
    fix x assume "x \<in> rng m n"
    with ar have "unat a \<le> x" "x < unat a + ?P" by (simp_all add: rng_def)
    with a0 sc show "x \<in> free_set pool w"
      unfolding free_set_iff by (intro disjI2 bexI [of _ a]) simp_all
  qed
  show "rng m n \<inter> free_set pool' w' = {}"
  proof (rule ccontr)
    assume "rng m n \<inter> free_set pool' w' \<noteq> {}"
    then obtain x where xr: "x \<in> rng m n" and xf: "x \<in> free_set pool' w'" by blast
    from xr ar have xb: "unat a \<le> x" "x < unat a + ?P" and xm: "x < unat (m + n)"
      by (simp_all add: rng_def)
    from xf consider i where "i < Suc (length (blocks pool))" "unat (fst (snd (?G' ! i))) \<le> x"
        "x < unat (snd (snd (?G' ! i)))"
      | a' where "a' \<in> set as" "a' \<noteq> 0" "unat a' \<le> x" "x < unat a' + ?P"
      unfolding free_set_iff len ps sc' by blast
    then show False
    proof cases
      case 1
      show False
      proof (cases "i = length (blocks pool)")
        case True
        with 1 nl xm show False by simp
      next
        case False
        with 1 have i: "i < length (blocks pool)" by simp
        obtain bi li ei where gi: "?G ! i = (bi, li, ei)" by (cases "?G ! i")
        from block_ok_nth [OF ok i] gi have "unat bi \<le> unat li" by (simp add: block_ok_def)
        with 1 ni [OF i] gi have xi: "unat bi \<le> x" "x < unat ei" by simp_all
        have "a \<in> set (script w)" using sc by simp
        from separate_block_script [OF ro i this a0] gi
        have "separate (unat bi, unat ei) (unat a, unat a + ?P)" by simp
        with xi xb show False by (simp add: separate_def)
      qed
    next
      case 2
      from separate_script [OF ro sc a0 2(1,2)] 2 xb show False by (simp add: separate_def)
    qed
  qed
  have "(unat a + unat (sz_data L), unat a + ?P) \<in> set (data_regions L pool')"
    by (simp add: dr)
  with ar show "in_data_region L pool' m n"
    unfolding in_data_region_def by (intro bexI [of _ "(unat a + unat (sz_data L), unat a + ?P)"]) simp_all
  show "?A dvd unat m" by (rule ar(3))
qed

text \<open>\<^verbatim>\<open>ngx_palloc_block\<close> in closed form, and the steps of \<^verbatim>\<open>ngx_palloc_small\<close>.\<close>

lemma palloc_block_grow:
  assumes "script w = a # as" and "a \<noteq> 0" and "current pool < length (blocks pool)"
  shows "ngx_palloc_block L pool sz w =
     (ngx_align_ptr (a + sz_data L) (NGX_ALIGNMENT L),
      pool\<lparr>blocks :=
             take (current pool) (blocks pool)
             @ map (\<lambda>p. p\<lparr>d_failed := d_failed p + 1\<rparr>) (butlast (drop (current pool) (blocks pool)))
             @ [last (blocks pool),
                \<lparr>b_addr = a, d_last = ngx_align_ptr (a + sz_data L) (NGX_ALIGNMENT L) + sz,
                 d_end = a + psize_of pool, d_failed = 0\<rparr>],
           current := walk_current (blocks pool) (current pool)\<rparr>,
      w\<lparr>script := as, trace := trace w @ [Ev_memalign (NGX_POOL_ALIGNMENT L) (psize_of pool) a]\<rparr>)"
  using assms
  by (simp add: ngx_palloc_block_def memalign_eq failed_walk_eq walk_current_def psize_of_def Let_def)

lemma palloc_block_refused:
  assumes "script w = [] \<or> (\<exists>as. script w = 0 # as)"
  shows "ngx_palloc_block L pool sz w =
     (0, pool, w\<lparr>script := tl (script w),
                 trace := trace w @ [Ev_memalign (NGX_POOL_ALIGNMENT L) (psize_of pool) 0]\<rparr>)"
  using assms
  by (auto simp: ngx_palloc_block_def memalign_eq psize_of_def Let_def)

lemma walked_geom:
  assumes "c < length ps"
  shows "map geom (take c ps @ map (\<lambda>p. p\<lparr>d_failed := d_failed p + 1\<rparr>) (butlast (drop c ps))
                   @ [last ps, new])
         = map geom ps @ [geom new]"
proof -
  from assms have ne: "drop c ps \<noteq> []" by simp
  have 1: "map geom (map (\<lambda>p. p\<lparr>d_failed := d_failed p + 1\<rparr>) (butlast (drop c ps)))
           = map geom (butlast (drop c ps))"
    by (simp add: geom_def)
  have 2: "last ps = last (drop c ps)" using assms by simp
  have "butlast (drop c ps) @ [last (drop c ps)] = drop c ps"
    using ne by (rule append_butlast_last_id)
  then have "take c ps @ butlast (drop c ps) @ [last (drop c ps)] = ps"
    by (simp only: append_take_drop_id)
  then have "map geom ps = map geom (take c ps @ butlast (drop c ps) @ [last (drop c ps)])"
    by (simp only:)
  then have 3: "map geom ps = map geom (take c ps) @ map geom (butlast (drop c ps)) @ [geom (last ps)]"
    by (simp only: map_append list.map 2)
  show ?thesis
    unfolding 3 by (simp only: map_append list.map 1 append_assoc append.simps)
qed

lemma sys_ok_refused:
  assumes I: "sys_ok L pool w" and s: "script w = [] \<or> (\<exists>as. script w = 0 # as)"
    and s': "script w' = tl (script w)"
  shows "sys_ok L pool w'" and "free_set pool w' \<subseteq> free_set pool w"
proof -
  have f: "filter (\<lambda>a. a \<noteq> 0) (script w') = filter (\<lambda>a. a \<noteq> 0) (script w)"
    using s s' by auto
  have sub: "set (script w') \<subseteq> set (script w)"
    using s s' by auto
  from I sub show "sys_ok L pool w'"
    by (auto simp: sys_ok_def alloc_ok_def regions_ok_def regions_def f)
  from s s' have "set (script w') - {0} = set (script w) - {0}" by auto
  then show "free_set pool w' \<subseteq> free_set pool w"
    by (simp add: free_set_def)
qed

lemma take_drop_update:
  assumes "c + k < length xs"
  shows "take c xs @ (drop c xs)[k := v] = xs[c + k := v]"
proof -
  have l: "length (take c xs) = c" using assms by simp
  have "(take c xs @ drop c xs)[c + k := v] = take c xs @ (drop c xs)[k := v]"
    unfolding list_update_append l by simp
  then show ?thesis by simp
qed

lemma palloc_small_step:
  assumes I: "sys_ok L pool w" and n: "n \<le> pool_max pool"
    and call: "ngx_palloc_small L pool n al w = (m, pool', w')"
  shows "sys_ok L pool' w' \<and> pool_max pool' = pool_max pool
       \<and> set (data_regions L pool) \<subseteq> set (data_regions L pool')
       \<and> free_set pool' w' \<subseteq> free_set pool w
       \<and> (m \<noteq> 0 \<longrightarrow> rng m n \<subseteq> free_set pool w \<and> rng m n \<inter> free_set pool' w' = {}
              \<and> in_data_region L pool' m n \<and> (al \<longrightarrow> unat (NGX_ALIGNMENT L) dvd unat m))"
proof -
  from I have ok: "pool_ok L pool" and L: "layout_ok L" by (simp_all add: sys_ok_def)
  let ?c = "current pool"
  let ?bs = "blocks pool"
  let ?A = "unat (NGX_ALIGNMENT L)"
  from ok have c: "?c < length ?bs" and dP: "?A dvd unat (psize_of pool)"
    and all: "\<forall>g\<in>set (map geom ?bs). block_ok L (unat (psize_of pool)) g"
    by (simp_all add: pool_ok_def)
  from L have A: "0 < ?A" by (simp add: layout_ok_def)
  show ?thesis
  proof (cases "small_loop L (drop ?c ?bs) n al")
    case (Some r)
    obtain m0 ps' where r: "r = (m0, ps')" by (cases r)
    with Some call have res: "m = m0" "pool' = pool\<lparr>blocks := take ?c ?bs @ ps'\<rparr>" "w' = w"
      by (simp_all add: ngx_palloc_small_def)
    from all have "\<forall>g\<in>set (map geom (drop ?c ?bs)). block_ok L (unat (psize_of pool)) g"
      by (auto dest: in_set_dropD)
    from small_loop_found [OF Some [unfolded r] this A dP] res(1)
    obtain k where k: "k < length (drop ?c ?bs)"
      and ps': "ps' = (drop ?c ?bs)[k := (drop ?c ?bs ! k)\<lparr>d_last := m + n\<rparr>]"
      and le: "unat (d_last (drop ?c ?bs ! k)) \<le> unat m" "unat (m + n) = unat m + unat n"
        "unat m + unat n \<le> unat (d_end (drop ?c ?bs ! k))"
      and dv: "al \<longrightarrow> ?A dvd unat m"
      by auto
    let ?j = "?c + k"
    from k have j: "?j < length ?bs" by simp
    then have nth: "drop ?c ?bs ! k = ?bs ! ?j" by simp
    have bl: "blocks pool' = ?bs[?j := (?bs ! ?j)\<lparr>d_last := m + n\<rparr>]"
      using res(2) ps' nth take_drop_update [OF j] by simp
    have gj: "map geom ?bs ! ?j = (b_addr (?bs ! ?j), d_last (?bs ! ?j), d_end (?bs ! ?j))"
      using j by (rule geom_nth)
    have G': "map geom (blocks pool') = (map geom ?bs)[?j := (b_addr (?bs ! ?j), m + n, d_end (?bs ! ?j))]"
      unfolding bl by (simp add: map_update geom_def)
    have same: "pool_max pool' = pool_max pool" "current pool' = current pool"
      using res(2) by simp_all
    from le nth have le': "unat (d_last (?bs ! ?j)) \<le> unat m" "unat (m + n) = unat m + unat n"
        "unat m + unat n \<le> unat (d_end (?bs ! ?j))" by simp_all
    then have le2: "unat (d_last (?bs ! ?j)) \<le> unat (m + n)" "unat (m + n) \<le> unat (d_end (?bs ! ?j))"
      by simp_all
    note a = step_in_block_ok [OF I j gj G' same le2]
    note b = step_in_block_free [OF I j gj G' le']
    note g = step_in_block_geom [OF ok j gj G']
    from a b g(3) same dv res(3) show ?thesis by simp
  next
    case None
    with call have blk: "ngx_palloc_block L pool n w = (m, pool', w')"
      by (simp add: ngx_palloc_small_def)
    show ?thesis
    proof (cases "script w = [] \<or> (\<exists>as. script w = 0 # as)")
      case True
      from blk palloc_block_refused [OF True, of L pool n]
      have res: "m = 0" "pool' = pool"
        "w' = w\<lparr>script := tl (script w),
                 trace := trace w @ [Ev_memalign (NGX_POOL_ALIGNMENT L) (psize_of pool) 0]\<rparr>"
        by auto
      then have "script w' = tl (script w)" by simp
      from sys_ok_refused [OF I True this] res(1,2) show ?thesis by simp
    next
      case False
      then obtain a as where sc: "script w = a # as" and a0: "a \<noteq> 0"
        by (cases "script w") auto
      let ?m = "ngx_align_ptr (a + sz_data L) (NGX_ALIGNMENT L)"
      let ?new = "\<lparr>b_addr = a, d_last = ?m + n, d_end = a + psize_of pool, d_failed = 0\<rparr>"
      from blk palloc_block_grow [OF sc a0 c, of L n]
      have res: "m = ?m"
        "pool' = pool\<lparr>blocks :=
             take ?c ?bs @ map (\<lambda>p. p\<lparr>d_failed := d_failed p + 1\<rparr>) (butlast (drop ?c ?bs))
             @ [last ?bs, ?new],
           current := walk_current ?bs ?c\<rparr>"
        "w' = w\<lparr>script := as, trace := trace w @ [Ev_memalign (NGX_POOL_ALIGNMENT L) (psize_of pool) a]\<rparr>"
        by auto
      have G': "map geom (blocks pool') = map geom ?bs @ [(a, m + n, a + psize_of pool)]"
        using walked_geom [OF c, of ?new] res(1,2) by (simp add: geom_def)
      have same: "pool_max pool' = pool_max pool" "current pool' < length ?bs"
        using res(2) walk_current_less [OF c] by simp_all
      have sc': "script w' = as" using res(3) by simp
      note s = step_new_block [OF I sc a0 G' same sc' res(1) n]
      from s same(1) show ?thesis by simp
    qed
  qed
qed

lemma do_small_op_step:
  assumes I: "sys_ok L pool w" and n: "op_size x \<le> pool_max pool"
    and call: "do_small_op L pool x w = (m, pool', w')"
  shows "sys_ok L pool' w' \<and> pool_max pool' = pool_max pool
       \<and> set (data_regions L pool) \<subseteq> set (data_regions L pool')
       \<and> free_set pool' w' \<subseteq> free_set pool w
       \<and> (m \<noteq> 0 \<longrightarrow> rng m (op_size x) \<subseteq> free_set pool w
              \<and> rng m (op_size x) \<inter> free_set pool' w' = {}
              \<and> in_data_region L pool' m (op_size x)
              \<and> (op_aligned x \<longrightarrow> unat (NGX_ALIGNMENT L) dvd unat m))"
proof (cases x)
  case (Palloc k)
  with n call have "ngx_palloc_small L pool (op_size x) True w = (m, pool', w')"
    by (simp add: ngx_palloc_def)
  from palloc_small_step [OF I n this] Palloc show ?thesis by simp
next
  case (Pnalloc k)
  with n call have "ngx_palloc_small L pool (op_size x) False w = (m, pool', w')"
    by (simp add: ngx_pnalloc_def)
  from palloc_small_step [OF I n this] Pnalloc show ?thesis by simp
qed

lemma in_data_region_mono:
  "set (data_regions L p1) \<subseteq> set (data_regions L p2) \<Longrightarrow> in_data_region L p1 m n
   \<Longrightarrow> in_data_region L p2 m n"
  unfolding in_data_region_def by blast

lemma run_small_inv:
  assumes "sys_ok L pool w" and "\<forall>x\<in>set ops. op_size x \<le> pool_max pool"
    and "run_small L pool w ops = (rs, pool', w')"
  shows "free_set pool' w' \<subseteq> free_set pool w
       \<and> set (data_regions L pool) \<subseteq> set (data_regions L pool')
       \<and> disjoint_ranges rs
       \<and> (\<forall>(m, n, al)\<in>set rs. rng m n \<subseteq> free_set pool w \<and> in_data_region L pool' m n
             \<and> (al \<longrightarrow> unat (NGX_ALIGNMENT L) dvd unat m))"
  using assms
proof (induction ops arbitrary: pool w rs pool' w')
  case Nil
  then show ?case by (simp add: disjoint_ranges_def)
next
  case (Cons x xs)
  obtain m pool1 w1 where op: "do_small_op L pool x w = (m, pool1, w1)"
    by (cases "do_small_op L pool x w")
  obtain rs1 pool2 w2 where run: "run_small L pool1 w1 xs = (rs1, pool2, w2)"
    by (cases "run_small L pool1 w1 xs")
  from Cons.prems(3) op run have res: "pool' = pool2" "w' = w2"
    "rs = (if m = 0 then rs1 else (m, op_size x, op_aligned x) # rs1)"
    by (simp_all add: Let_def)
  from Cons.prems(2) have nx: "op_size x \<le> pool_max pool" by simp
  note st = do_small_op_step [OF Cons.prems(1) nx op]
  from st have I1: "sys_ok L pool1 w1" and mx: "pool_max pool1 = pool_max pool"
    and d1: "set (data_regions L pool) \<subseteq> set (data_regions L pool1)"
    and f1: "free_set pool1 w1 \<subseteq> free_set pool w" by simp_all
  from Cons.prems(2) mx have "\<forall>x\<in>set xs. op_size x \<le> pool_max pool1" by simp
  note ih = Cons.IH [OF I1 this run]
  from ih have f2: "free_set pool2 w2 \<subseteq> free_set pool1 w1"
    and d2: "set (data_regions L pool1) \<subseteq> set (data_regions L pool2)"
    and dj: "disjoint_ranges rs1"
    and al: "\<forall>(m, n, al)\<in>set rs1. rng m n \<subseteq> free_set pool1 w1 \<and> in_data_region L pool2 m n
             \<and> (al \<longrightarrow> unat (NGX_ALIGNMENT L) dvd unat m)"
    by simp_all
  have rest: "\<forall>(m, n, al)\<in>set rs1. rng m n \<subseteq> free_set pool w \<and> in_data_region L pool2 m n
             \<and> (al \<longrightarrow> unat (NGX_ALIGNMENT L) dvd unat m)"
    using al f1 by fastforce
  show ?case
  proof (cases "m = 0")
    case True
    with res f1 f2 d1 d2 dj rest show ?thesis by auto
  next
    case False
    with st have r: "rng m (op_size x) \<subseteq> free_set pool w"
      "rng m (op_size x) \<inter> free_set pool1 w1 = {}"
      "in_data_region L pool1 m (op_size x)"
      "op_aligned x \<longrightarrow> unat (NGX_ALIGNMENT L) dvd unat m"
      by simp_all
    from r(3) d2 have r3: "in_data_region L pool2 m (op_size x)"
      by (rule in_data_region_mono [rotated])
    have "\<forall>(m', n', al')\<in>set rs1. rng m (op_size x) \<inter> rng m' n' = {}"
      using al r(2) by fastforce
    with dj have "disjoint_ranges ((m, op_size x, op_aligned x) # rs1)"
      by (auto simp: disjoint_ranges_def)
    with False res f1 f2 d1 d2 rest r r3 show ?thesis by auto
  qed
qed

lemma disjoint_ranges_nth:
  "disjoint_ranges rs \<Longrightarrow> i < j \<Longrightarrow> j < length rs \<Longrightarrow>
   rng (fst (rs ! i)) (fst (snd (rs ! i))) \<inter> rng (fst (rs ! j)) (fst (snd (rs ! j))) = {}"
  by (auto simp: disjoint_ranges_def sorted_wrt_iff_nth_less case_prod_beta)

text \<open>
  \<^verbatim>\<open>ngx_create_pool\<close> makes a well-formed pool when the size is a multiple of the
  alignment that leaves room for the pool header.
\<close>

lemma create_pool_ok:
  assumes L: "layout_ok L" and sc: "script w = a # as" and a0: "a \<noteq> 0"
    and al: "unat (NGX_POOL_ALIGNMENT L) dvd unat a"
    and fit: "unat a + unat sz < 2 ^ 64"
    and hdr: "unat (sz_pool L) \<le> unat sz"
    and mult: "unat (NGX_ALIGNMENT L) dvd unat sz"
  shows "\<exists>pool w'. ngx_create_pool L sz w = (Some pool, w') \<and> pool_ok L pool
           \<and> psize_of pool = sz \<and> script w' = as"
proof -
  let ?mx = "if sz - sz_pool L < NGX_MAX_ALLOC_FROM_POOL L then sz - sz_pool L
             else NGX_MAX_ALLOC_FROM_POOL L"
  let ?pool = "\<lparr>blocks = [\<lparr>b_addr = a, d_last = a + sz_pool L, d_end = a + sz, d_failed = 0\<rparr>],
               pool_max = ?mx, current = 0, p_chain = 0, large = [], cleanup = []\<rparr>"
  let ?w = "w\<lparr>script := as, trace := trace w @ [Ev_memalign (NGX_POOL_ALIGNMENT L) sz a]\<rparr>"
  have c: "ngx_create_pool L sz w = (Some ?pool, ?w)"
    using sc a0 by (simp add: ngx_create_pool_def memalign_eq Let_def)
  have ps: "psize_of ?pool = sz" by (simp add: psize_of_def)
  from fit have e: "unat (a + sz) = unat a + unat sz"
    by (simp add: unat_add_lem [symmetric])
  from fit hdr have "unat a + unat (sz_pool L) < 2 ^ LENGTH(64)" by simp
  then have l: "unat (a + sz_pool L) = unat a + unat (sz_pool L)"
    by (simp only: unat_add_lem)
  from hdr have "sz_pool L \<le> sz" by (simp add: word_le_nat_alt)
  then have d: "unat (sz - sz_pool L) = unat sz - unat (sz_pool L)" by (rule unat_sub)
  have mx: "unat ?mx \<le> unat sz - unat (sz_pool L)"
    using d by (auto simp: word_less_nat_alt)
  from L have sd: "unat (sz_data L) \<le> unat (sz_pool L)"
    and dA: "unat (NGX_ALIGNMENT L) dvd unat (NGX_POOL_ALIGNMENT L)"
    unfolding layout_ok_def by auto
  from dA al have da: "unat (NGX_ALIGNMENT L) dvd unat a" by (rule dvd_trans)
  have "pool_ok L ?pool"
    unfolding pool_ok_def ps using e l mx sd da hdr mult
    by (simp add: geom_def block_ok_def)
  with c ps show ?thesis by auto
qed

lemma wrapped_difference: "(1 :: 64 word) \<le> - 4"
  by code_simp

text \<open>
  Small allocations on a well-formed pool. Let the pool be well-formed: its blocks have the size of the root
  block, which is a multiple of the platform alignment, start at aligned addresses, and
  the threshold fits into a block beside the pool header (\<^verbatim>\<open>ngx_create_pool\<close> makes
  such a pool when the size is a multiple of the alignment not smaller than the pool
  header). Let the underlying allocator hand out aligned blocks that overlap neither
  each other nor the blocks of the pool. Then for every sequence of small allocations
  (calls of \<^verbatim>\<open>ngx_palloc\<close> or \<^verbatim>\<open>ngx_pnalloc\<close> with a size up to \<^verbatim>\<open>pool->max\<close>) the
  ranges returned are pairwise disjoint, each lies within the data region of a block of
  the chain, and every pointer returned by \<^verbatim>\<open>ngx_palloc\<close> is aligned.
\<close>

theorem small_allocations_disjoint:
  assumes "layout_ok L" and "pool_ok L pool" and "alloc_ok L pool w" and "regions_ok pool w"
    and "\<forall>x\<in>set ops. op_size x \<le> pool_max pool"
    and "run_small L pool w ops = (rs, pool', w')"
  shows "disjoint_ranges rs
       \<and> (\<forall>(m, n, al)\<in>set rs. in_data_region L pool' m n
             \<and> (al \<longrightarrow> unat (NGX_ALIGNMENT L) dvd unat m))"
proof -
  from assms(1-4) have "sys_ok L pool w" by (simp add: sys_ok_def)
  from run_small_inv [OF this assms(5,6)] show ?thesis by fast
qed

theorem small_allocations_disjoint_witness:
  "ngx_create_pool lp64 1024 (ex_world\<lparr>script := [4096, 8192]\<rparr>) =
     (Some fresh_pool, ex_world\<lparr>script := [8192], trace := [Ev_memalign 16 1024 4096]\<rparr>)
   \<and> layout_ok lp64 \<and> pool_ok lp64 fresh_pool
   \<and> alloc_ok lp64 fresh_pool (ex_world\<lparr>script := [8192], trace := [Ev_memalign 16 1024 4096]\<rparr>)
   \<and> regions_ok fresh_pool (ex_world\<lparr>script := [8192], trace := [Ev_memalign 16 1024 4096]\<rparr>)
   \<and> fst (run_small lp64 fresh_pool (ex_world\<lparr>script := [8192], trace := [Ev_memalign 16 1024 4096]\<rparr>)
        [Palloc 100, Pnalloc 3, Palloc 900, Palloc 8]) =
       [(4176, 100, True), (4276, 3, False), (8224, 900, True), (4280, 8, True)]
   \<and> blocks (fst (snd (run_small lp64 fresh_pool
        (ex_world\<lparr>script := [8192], trace := [Ev_memalign 16 1024 4096]\<rparr>)
        [Palloc 100, Pnalloc 3, Palloc 900, Palloc 8]))) =
       [\<lparr>b_addr = 4096, d_last = 4288, d_end = 5120, d_failed = 0\<rparr>,
        \<lparr>b_addr = 8192, d_last = 9124, d_end = 9216, d_failed = 0\<rparr>]
   \<and> disjoint_ranges [(4176, 100, True), (4276, 3, False), (8224, 900, True), (4280, 8, True)]
   \<and> in_data_region lp64 (fst (snd (run_small lp64 fresh_pool
        (ex_world\<lparr>script := [8192], trace := [Ev_memalign 16 1024 4096]\<rparr>)
        [Palloc 100, Pnalloc 3, Palloc 900, Palloc 8]))) 8224 900
   \<and> unat (NGX_ALIGNMENT lp64) dvd unat (8224 :: addr)"
proof -
  let ?w = "ex_world\<lparr>script := [8192], trace := [Ev_memalign 16 1024 4096]\<rparr>"
  let ?ops = "[Palloc 100, Pnalloc 3, Palloc 900, Palloc 8]"
  let ?R = "run_small lp64 fresh_pool ?w ?ops"
  have c: "ngx_create_pool lp64 1024 (ex_world\<lparr>script := [4096, 8192]\<rparr>) = (Some fresh_pool, ?w)"
    by (simp add: ngx_create_pool_def ngx_memalign_def fresh_pool_def ex_world_def lp64_def)
  have h1: "layout_ok lp64" by (simp add: layout_ok_def lp64_def)
  have h2: "pool_ok lp64 fresh_pool"
    by (simp add: pool_ok_def block_ok_def geom_def psize_of_def fresh_pool_def lp64_def)
  have h3: "alloc_ok lp64 fresh_pool ?w"
    by (simp add: alloc_ok_def psize_of_def fresh_pool_def lp64_def)
  have h4: "regions_ok fresh_pool ?w"
    by (simp add: regions_ok_def regions_def separate_def geom_def psize_of_def fresh_pool_def)
  have h5: "\<forall>x\<in>set ?ops. op_size x \<le> pool_max fresh_pool"
    by (simp add: fresh_pool_def)
  have rs: "fst ?R = [(4176, 100, True), (4276, 3, False), (8224, 900, True), (4280, 8, True)]"
    by (simp add: ngx_palloc_def ngx_pnalloc_def ngx_palloc_small_def ngx_palloc_block_def
        ngx_memalign_def ngx_align_ptr_def Let_def fresh_pool_def ex_world_def lp64_def)
  have bl: "blocks (fst (snd ?R)) =
       [\<lparr>b_addr = 4096, d_last = 4288, d_end = 5120, d_failed = 0\<rparr>,
        \<lparr>b_addr = 8192, d_last = 9124, d_end = 9216, d_failed = 0\<rparr>]"
    by (simp add: ngx_palloc_def ngx_pnalloc_def ngx_palloc_small_def ngx_palloc_block_def
        ngx_memalign_def ngx_align_ptr_def Let_def fresh_pool_def ex_world_def lp64_def)
  have h6: "?R = (fst ?R, fst (snd ?R), snd (snd ?R))" by simp
  from small_allocations_disjoint [OF h1 h2 h3 h4 h5 h6]
  have "disjoint_ranges (fst ?R)"
    and "\<forall>(m, n, al)\<in>set (fst ?R). in_data_region lp64 (fst (snd ?R)) m n
             \<and> (al \<longrightarrow> unat (NGX_ALIGNMENT lp64) dvd unat m)"
    by blast+
  then have "disjoint_ranges [(4176, 100, True), (4276, 3, False), (8224, 900, True), (4280, 8, True)]"
    and "in_data_region lp64 (fst (snd ?R)) 8224 900"
    and "unat (NGX_ALIGNMENT lp64) dvd unat (8224 :: addr)"
    unfolding rs by simp_all
  with c h1 h2 h3 h4 rs bl show ?thesis by simp
qed

text \<open>
  C1. The range returned by a small allocation should lie within the data region of a
  block of the chain; \<^verbatim>\<open>ngx_palloc_small\<close> tests for it with
  \<^verbatim>\<open>(size_t) (p->d.end - m) >= size\<close>. The test fails to protect a pool created with a size
  of 100 bytes at 4096, whose block ends at 4196: after 19 bytes have been given out,
  the cursor is one byte before the end of the block; the aligned candidate address,
  4200, is past the end, the unsigned difference wraps around, the test succeeds, and
  the byte returned for \<^verbatim>\<open>ngx_palloc(pool, 1)\<close> lies outside the block.
\<close>

theorem small_allocation_outside_block:
  "ngx_create_pool lp64 100 (ex_world\<lparr>script := [4096]\<rparr>) =
     (Some tiny_pool, ex_world\<lparr>script := [], trace := [Ev_memalign 16 100 4096]\<rparr>)
   \<and> run_small lp64 tiny_pool (ex_world\<lparr>script := [], trace := [Ev_memalign 16 100 4096]\<rparr>)
        [Pnalloc 19, Palloc 1] =
       ([(4176, 19, False), (4200, 1, True)],
        tiny_pool\<lparr>blocks := [\<lparr>b_addr = 4096, d_last = 4201, d_end = 4196, d_failed = 0\<rparr>]\<rparr>,
        ex_world\<lparr>script := [], trace := [Ev_memalign 16 100 4096]\<rparr>)
   \<and> data_regions lp64
        (tiny_pool\<lparr>blocks := [\<lparr>b_addr = 4096, d_last = 4201, d_end = 4196, d_failed = 0\<rparr>]\<rparr>)
       = [(4176, 4196)]
   \<and> \<not> in_data_region lp64
        (tiny_pool\<lparr>blocks := [\<lparr>b_addr = 4096, d_last = 4201, d_end = 4196, d_failed = 0\<rparr>]\<rparr>)
        4200 1"
  by (simp add: ngx_create_pool_def ngx_palloc_def ngx_pnalloc_def ngx_palloc_small_def
      ngx_memalign_def ngx_align_ptr_def Let_def tiny_pool_def ex_world_def lp64_def
      in_data_region_def data_regions_def geom_def wrapped_difference)

text \<open>
  Once the cursor of a block has passed the end of the block, every later request is
  served from that block, and the ranges given out run into whatever lies behind it. On
  the pool of 100 bytes, when the underlying allocator places the second block at 4208,
  the fifth of the following allocations overlaps the second one, which had been served
  from the second block.
\<close>

lemma small_allocations_overlap:
  "run_small lp64 tiny_pool (ex_world\<lparr>script := [4208], trace := [Ev_memalign 16 100 4096]\<rparr>)
        [Pnalloc 1, Pnalloc 20, Pnalloc 19, Palloc 20, Palloc 20] =
       ([(4176, 1, False), (4240, 20, False), (4177, 19, False), (4200, 20, True), (4224, 20, True)],
        tiny_pool\<lparr>blocks := [\<lparr>b_addr = 4096, d_last = 4244, d_end = 4196, d_failed = 0\<rparr>,
                              \<lparr>b_addr = 4208, d_last = 4260, d_end = 4308, d_failed = 0\<rparr>]\<rparr>,
        ex_world\<lparr>script := [], trace := [Ev_memalign 16 100 4096, Ev_memalign 16 100 4208]\<rparr>)
   \<and> \<not> disjoint_ranges
         [(4176, 1, False), (4240, 20, False), (4177, 19, False), (4200, 20, True), (4224, 20, True)]
   \<and> rng 4240 20 \<inter> rng 4224 20 = {4240 ..< 4244}"
proof -
  have w1: "(20 :: 64 word) \<le> - 4" and w2: "(20 :: 64 word) \<le> - 28"
    by code_simp+
  have w3: "\<not> (20 :: 64 word) \<le> 19" by simp
  show ?thesis
    by (simp add: ngx_palloc_def ngx_pnalloc_def ngx_palloc_small_def ngx_palloc_block_def
        ngx_memalign_def ngx_align_ptr_def Let_def tiny_pool_def ex_world_def lp64_def
        disjoint_ranges_def rng_def w1 w2 w3)
qed

end
